theory Spec2Isabelle
  imports Main "HOL-Library.Word"
begin

section \<open>Backoff strategies (retry\_opts.go)\<close>

text \<open>
  Go's \<^verbatim>\<open>int64\<close> and \<^verbatim>\<open>time.Duration\<close> (an \<^verbatim>\<open>int64\<close> of nanoseconds) are
  64-bit words read as two's complement by \<open>sint\<close>. The source signals "no more
  retries" by returning the duration \<open>-1\<close>, which is the constant \<^verbatim>\<open>backoff.Stop\<close> of
  the library \<^verbatim>\<open>github.com/cenkalti/backoff\<close>.
\<close>

type_synonym int64 = "64 word"
type_synonym Duration = "64 word"

definition Stop :: Duration where
  "Stop = - 1"

record concurrenyControl =
  maxRetries :: int64
  remainRetries :: int64

text \<open>
  The three structs each have a field \<^verbatim>\<open>cc\<close>; record fields are global names in HOL,
  so the field is \<open>z_cc\<close>, \<open>c_cc\<close> and \<open>e_cc\<close> here.
\<close>

record zeroBackoff =
  z_cc :: concurrenyControl

record constantBackoff =
  interval :: Duration
  c_cc :: concurrenyControl

text \<open>
  \<^verbatim>\<open>exponentialBackoff.eb\<close> points to a \<^verbatim>\<open>backoff.ExponentialBackOff\<close> of the library,
  whose code is not part of this repository (it reads the clock and a random source).
  Its state is a type parameter \<open>'x\<close> and its three operations are parameters,
  collected in \<open>ExponentialBackOff_lib\<close>.
\<close>

record 'x ExponentialBackOff_lib =
  lib_NewExponentialBackOff :: 'x
  lib_NextBackOff :: "'x \<Rightarrow> Duration \<times> 'x"
  lib_Reset :: "'x \<Rightarrow> 'x"

record 'x exponentialBackoff =
  eb :: 'x
  e_cc :: concurrenyControl

text \<open>\<^verbatim>\<open>remainRetries--\<close> on the embedded counter.\<close>

definition dec_remain :: "concurrenyControl \<Rightarrow> concurrenyControl" where
  "dec_remain c = c\<lparr>remainRetries := remainRetries c - 1\<rparr>"

text \<open>\<^verbatim>\<open>func (z *zeroBackoff) NextBackOff() time.Duration\<close>: the result and the receiver after the call.\<close>

definition zeroBackoff_NextBackOff :: "zeroBackoff \<Rightarrow> Duration \<times> zeroBackoff" where
  "zeroBackoff_NextBackOff z =
     (if 0 < sint (remainRetries (z_cc z))
      then (0, z\<lparr>z_cc := dec_remain (z_cc z)\<rparr>)
      else (- 1, z))"

definition zeroBackoff_Reset :: "zeroBackoff \<Rightarrow> zeroBackoff" where
  "zeroBackoff_Reset z = z\<lparr>z_cc := (z_cc z)\<lparr>remainRetries := maxRetries (z_cc z)\<rparr>\<rparr>"

definition constantBackoff_NextBackOff :: "constantBackoff \<Rightarrow> Duration \<times> constantBackoff" where
  "constantBackoff_NextBackOff c =
     (if 0 < sint (remainRetries (c_cc c))
      then (interval c, c\<lparr>c_cc := dec_remain (c_cc c)\<rparr>)
      else (- 1, c))"

definition constantBackoff_Reset :: "constantBackoff \<Rightarrow> constantBackoff" where
  "constantBackoff_Reset c = c\<lparr>c_cc := (c_cc c)\<lparr>remainRetries := maxRetries (c_cc c)\<rparr>\<rparr>"

definition exponentialBackoff_NextBackOff ::
  "'x ExponentialBackOff_lib \<Rightarrow> 'x exponentialBackoff \<Rightarrow> Duration \<times> 'x exponentialBackoff" where
  "exponentialBackoff_NextBackOff L e =
     (if 0 < sint (remainRetries (e_cc e))
      then (fst (lib_NextBackOff L (eb e)),
            e\<lparr>e_cc := dec_remain (e_cc e), eb := snd (lib_NextBackOff L (eb e))\<rparr>)
      else (- 1, e))"

definition exponentialBackoff_Reset ::
  "'x ExponentialBackOff_lib \<Rightarrow> 'x exponentialBackoff \<Rightarrow> 'x exponentialBackoff" where
  "exponentialBackoff_Reset L e =
     e\<lparr>e_cc := (e_cc e)\<lparr>remainRetries := maxRetries (e_cc e)\<rparr>, eb := lib_Reset L (eb e)\<rparr>"

definition NewZeroBackoff :: "int64 \<Rightarrow> zeroBackoff" where
  "NewZeroBackoff m = \<lparr>z_cc = \<lparr>maxRetries = m, remainRetries = m\<rparr>\<rparr>"

definition NewConstantBackoff :: "int64 \<Rightarrow> Duration \<Rightarrow> constantBackoff" where
  "NewConstantBackoff m i = \<lparr>interval = i, c_cc = \<lparr>maxRetries = m, remainRetries = m\<rparr>\<rparr>"

definition NewExponentialBackoff :: "'x ExponentialBackOff_lib \<Rightarrow> int64 \<Rightarrow> 'x exponentialBackoff" where
  "NewExponentialBackoff L m =
     \<lparr>eb = lib_NewExponentialBackOff L, e_cc = \<lparr>maxRetries = m, remainRetries = m\<rparr>\<rparr>"

text \<open>
  The interface \<^verbatim>\<open>backoff.BackOff\<close> with its three implementations (the assertions
  at the top of retry\_opts.go); \<open>NextBackOff\<close> and \<open>Reset\<close> are the dynamic dispatch.
\<close>

datatype 'x BackOff =
    ZeroB zeroBackoff
  | ConstantB constantBackoff
  | ExponentialB "'x exponentialBackoff"

fun NextBackOff :: "'x ExponentialBackOff_lib \<Rightarrow> 'x BackOff \<Rightarrow> Duration \<times> 'x BackOff" where
  "NextBackOff L (ZeroB z) = (fst (zeroBackoff_NextBackOff z), ZeroB (snd (zeroBackoff_NextBackOff z)))"
| "NextBackOff L (ConstantB c) =
     (fst (constantBackoff_NextBackOff c), ConstantB (snd (constantBackoff_NextBackOff c)))"
| "NextBackOff L (ExponentialB e) =
     (fst (exponentialBackoff_NextBackOff L e), ExponentialB (snd (exponentialBackoff_NextBackOff L e)))"

fun Reset :: "'x ExponentialBackOff_lib \<Rightarrow> 'x BackOff \<Rightarrow> 'x BackOff" where
  "Reset L (ZeroB z) = ZeroB (zeroBackoff_Reset z)"
| "Reset L (ConstantB c) = ConstantB (constantBackoff_Reset c)"
| "Reset L (ExponentialB e) = ExponentialB (exponentialBackoff_Reset L e)"

text \<open>The embedded counters of a strategy.\<close>

fun cc_of :: "'x BackOff \<Rightarrow> concurrenyControl" where
  "cc_of (ZeroB z) = z_cc z"
| "cc_of (ConstantB c) = c_cc c"
| "cc_of (ExponentialB e) = e_cc e"

text \<open>The results of \<open>n\<close> successive \<^verbatim>\<open>NextBackOff()\<close> calls, and the strategy after them.\<close>

fun nexts :: "'x ExponentialBackOff_lib \<Rightarrow> nat \<Rightarrow> 'x BackOff \<Rightarrow> Duration list" where
  "nexts L 0 b = []"
| "nexts L (Suc n) b = fst (NextBackOff L b) # nexts L n (snd (NextBackOff L b))"

fun after_nexts :: "'x ExponentialBackOff_lib \<Rightarrow> nat \<Rightarrow> 'x BackOff \<Rightarrow> 'x BackOff" where
  "after_nexts L 0 b = b"
| "after_nexts L (Suc n) b = after_nexts L n (snd (NextBackOff L b))"

section \<open>Retry wrapping\<close>

text \<open>
  \<^verbatim>\<open>error\<close> values: \<open>Canceled\<close> is \<^verbatim>\<open>context.Canceled\<close>, what \<^verbatim>\<open>ctx.Err()\<close> gives once the
  context is cancelled; \<open>Failure n\<close> stands for the caller's own errors. The \<^verbatim>\<open>nil\<close>
  error is \<open>None\<close> of \<open>error option\<close>.
\<close>

datatype error = Canceled | Failure nat

lemma sint_dec:
  fixes r :: "64 word"
  assumes "0 < sint r"
  shows "sint (r - 1) = sint r - 1"
proof -
  have ub: "sint r < 2 ^ 63"
    using sint_lt [of r] by simp
  have "sint (r - 1) = signed_take_bit 63 (sint r - 1)"
    by (simp add: sint_word_diff)
  also have "\<dots> = sint r - 1"
    by (rule signed_take_bit_int_eq_self) (use assms ub in simp_all)
  finally show ?thesis .
qed

lemma NextBackOff_not_Stop_decreases:
  assumes "fst (NextBackOff L b) \<noteq> Stop"
  shows "nat (sint (remainRetries (cc_of (snd (NextBackOff L b))))) < nat (sint (remainRetries (cc_of b)))"
proof (cases b)
  case (ZeroB z)
  with assms have "0 < sint (remainRetries (z_cc z))"
    by (simp add: zeroBackoff_NextBackOff_def Stop_def split: if_splits)
  with ZeroB show ?thesis
    by (simp add: zeroBackoff_NextBackOff_def dec_remain_def sint_dec)
next
  case (ConstantB c)
  with assms have "0 < sint (remainRetries (c_cc c))"
    by (simp add: constantBackoff_NextBackOff_def Stop_def split: if_splits)
  with ConstantB show ?thesis
    by (simp add: constantBackoff_NextBackOff_def dec_remain_def sint_dec)
next
  case (ExponentialB e)
  with assms have "0 < sint (remainRetries (e_cc e))"
    by (simp add: exponentialBackoff_NextBackOff_def Stop_def split: if_splits)
  with ExponentialB show ?thesis
    by (simp add: exponentialBackoff_NextBackOff_def dec_remain_def sint_dec)
qed

text \<open>
  Modelled from the spec: the loop of \<^verbatim>\<open>backoff.Retry(f, backoffOpt)\<close>, a function of the
  library \<^verbatim>\<open>github.com/cenkalti/backoff\<close> that is not among the sources. Section 4.2 of
  the spec: invoke the task; on success stop and propagate success; after a failing
  attempt ask the strategy: the stop signal propagates the last failure, a duration is
  slept and the task is tried again. The task is a state transformer \<open>operation\<close> on its
  own private state \<open>s\<close> (what the closure captures); the sleep changes neither state
  and is left out. The result is what the wrapped task returns, the task's state and
  the strategy after the last attempt.
\<close>

function Retry_loop ::
  "'x ExponentialBackOff_lib \<Rightarrow> ('s \<Rightarrow> error option \<times> 's) \<Rightarrow> 'x BackOff \<Rightarrow> 's
     \<Rightarrow> error option \<times> 's \<times> 'x BackOff" where
  "Retry_loop L operation b s =
     (if fst (operation s) = None then (None, snd (operation s), b)
      else if fst (NextBackOff L b) = Stop
        then (fst (operation s), snd (operation s), snd (NextBackOff L b))
        else Retry_loop L operation (snd (NextBackOff L b)) (snd (operation s)))"
  by pat_completeness auto
termination
proof (relation "measure (\<lambda>(L, operation, b, s). nat (sint (remainRetries (cc_of b))))")
  show "wf (measure (\<lambda>(L, operation, b, s). nat (sint (remainRetries (cc_of b)))))"
    by simp
next
  fix L :: "'x ExponentialBackOff_lib" and operation :: "'s \<Rightarrow> error option \<times> 's"
    and b :: "'x BackOff" and s :: 's
  assume "fst (NextBackOff L b) \<noteq> Stop"
  then have "nat (sint (remainRetries (cc_of (snd (NextBackOff L b)))))
      < nat (sint (remainRetries (cc_of b)))"
    by (rule NextBackOff_not_Stop_decreases)
  then show "((L, operation, snd (NextBackOff L b), snd (operation s)), L, operation, b, s)
      \<in> measure (\<lambda>(L, operation, b, s). nat (sint (remainRetries (cc_of b))))"
    by simp
qed

text \<open>
  Modelled from the spec: \<^verbatim>\<open>backoff.Retry\<close> resets the strategy once, before the first
  attempt (section 4.2: "reset per-invocation policy state only once").
\<close>

definition Retry ::
  "'x ExponentialBackOff_lib \<Rightarrow> ('s \<Rightarrow> error option \<times> 's) \<Rightarrow> 'x BackOff \<Rightarrow> 's
     \<Rightarrow> error option \<times> 's \<times> 'x BackOff" where
  "Retry L operation b s = Retry_loop L operation (Reset L b) s"

declare Retry_loop.simps [simp del]

text \<open>
  A task instrumented with the number of times its body has been invoked: the state of
  \<open>counted operation\<close> is the pair of that number and the body's own state.
\<close>

definition counted :: "('s \<Rightarrow> error option \<times> 's) \<Rightarrow> nat \<times> 's \<Rightarrow> error option \<times> nat \<times> 's" where
  "counted operation = (\<lambda>(n, s). (fst (operation s), Suc n, snd (operation s)))"

section \<open>The group (errgroup.go)\<close>

text \<open>
  \<^verbatim>\<open>RetryMode\<close> is a \<^verbatim>\<open>uint8\<close> with three named values; the model has those three
  (a value outside them is not modelled).
\<close>

datatype RetryMode = Zero | Constant | Exponential

record RetryOption =
  Mode :: RetryMode
  Interval :: Duration
  MaxRetries :: int64
  wrapped :: bool

text \<open>The \<^verbatim>\<open>switch g.retryMode.Mode\<close> of \<^verbatim>\<open>Go\<close> (errgroup.go, lines 106 to 113).\<close>

definition backoffOpt :: "'x ExponentialBackOff_lib \<Rightarrow> RetryOption \<Rightarrow> 'x BackOff" where
  "backoffOpt L ro =
     (case Mode ro of
        Zero \<Rightarrow> ZeroB (NewZeroBackoff (MaxRetries ro))
      | Constant \<Rightarrow> ConstantB (NewConstantBackoff (MaxRetries ro) (Interval ro))
      | Exponential \<Rightarrow> ExponentialB (NewExponentialBackoff L (MaxRetries ro)))"

text \<open>
  \<^verbatim>\<open>errCh\<close>: the buffered channel \<^verbatim>\<open>errs\<close> is its contents (oldest first) and its
  capacity; the mutex \<^verbatim>\<open>mu\<close> makes each guarded send one atomic step.
\<close>

record errCh =
  errs :: "error list"
  cap_errs :: nat

text \<open>\<^verbatim>\<open>semaphore.Weighted\<close> (library \<^verbatim>\<open>golang.org/x/sync/semaphore\<close>): its size and the permits held.\<close>

record Weighted =
  sem_size :: int
  sem_cur :: int

text \<open>
  \<^verbatim>\<open>group\<close>. \<open>ctx\<close> is the derived context, \<open>True\<close> once it is done; \<^verbatim>\<open>cancel\<close> sets it.
  \<open>wg\<close> is the counter of the \<^verbatim>\<open>sync.WaitGroup\<close>, \<open>errOnce\<close> whether the \<^verbatim>\<open>sync.Once\<close> has
  run. A \<^verbatim>\<open>nil\<close> pointer is \<open>None\<close>.
\<close>

record group =
  ctx :: bool
  wg :: int
  errOnce :: bool
  sema :: "Weighted option"
  waitAll :: bool
  err :: "errCh option"
  retryMode :: "RetryOption option"

text \<open>
  \<^verbatim>\<open>NewGroupWithContext(ctx, maxConcurrency, waitAll, retryMode, maxErrs)\<close>; the first
  argument says whether the parent context is already done (a context derived from a
  cancelled parent is cancelled). \<^verbatim>\<open>maxErrs\<close> is a Go \<^verbatim>\<open>int\<close>.
\<close>

definition NewGroupWithContext ::
  "bool \<Rightarrow> int64 \<Rightarrow> bool \<Rightarrow> RetryOption option \<Rightarrow> int \<Rightarrow> group" where
  "NewGroupWithContext parent_done maxConcurrency wAll rMode maxErrs =
     \<lparr>ctx = parent_done,
      wg = 0,
      errOnce = False,
      sema = (if 0 < sint maxConcurrency
              then Some \<lparr>sem_size = sint maxConcurrency, sem_cur = 0\<rparr> else None),
      waitAll = wAll,
      err = (if 0 < maxErrs then Some \<lparr>errs = [], cap_errs = nat maxErrs\<rparr> else None),
      retryMode = rMode\<rparr>"

definition cancel :: "group \<Rightarrow> group" where
  "cancel g = g\<lparr>ctx := True\<rparr>"

text \<open>\<^verbatim>\<open>g.errOnce.Do(func() { g.cancel() })\<close>.\<close>

definition errOnce_Do_cancel :: "group \<Rightarrow> group" where
  "errOnce_Do_cancel g = (if errOnce g then g else cancel (g\<lparr>errOnce := True\<rparr>))"

text \<open>A send on a buffered channel: \<open>None\<close> when the buffer is full and the send blocks.\<close>

definition chan_send :: "error \<Rightarrow> errCh \<Rightarrow> errCh option" where
  "chan_send e ch =
     (if length (errs ch) < cap_errs ch then Some (ch\<lparr>errs := errs ch @ [e]\<rparr>) else None)"

text \<open>
  Lines 122 to 128 and 141 to 147 of errgroup.go, the same text twice:
  \<^verbatim>\<open>if g.err != nil { lock; if len(g.err.errs)-cap(g.err.errs) > 0 { g.err.errs <- err }; unlock }\<close>.
  \<open>None\<close>: the goroutine blocks in the send.
\<close>

definition record_err :: "error \<Rightarrow> group \<Rightarrow> group option" where
  "record_err e g =
     (case err g of
        None \<Rightarrow> Some g
      | Some ch \<Rightarrow>
          if 0 < int (length (errs ch)) - int (cap_errs ch)
          then (case chan_send e ch of None \<Rightarrow> None | Some ch' \<Rightarrow> Some (g\<lparr>err := Some ch'\<rparr>))
          else Some g)"

text \<open>
  \<^verbatim>\<open>Wait\<close>: \<open>None\<close> while \<^verbatim>\<open>g.wg.Wait()\<close> blocks (the counter is not zero); otherwise the
  returned channel (\<open>None\<close> for \<^verbatim>\<open>nil\<close>, else its contents at that moment) and the group
  after \<^verbatim>\<open>g.cancel()\<close>.
\<close>

definition Wait :: "group \<Rightarrow> (error list option \<times> group) option" where
  "Wait g = (if wg g = 0 then Some (map_option errs (err g), cancel g) else None)"

subsection \<open>The goroutines of \<^verbatim>\<open>Go\<close>\<close>

text \<open>
  The places of the goroutine that \<^verbatim>\<open>Go\<close> spawns (errgroup.go, lines 118 to 154):
  before \<^verbatim>\<open>g.sema.Acquire\<close> (\<open>AtAcquire\<close>); inside \<^verbatim>\<open>if err != nil\<close> after a failed
  acquisition (\<open>AcquireFailed\<close>); the deferred function registered, before \<^verbatim>\<open>fun()\<close>
  (\<open>AtFun\<close>); \<^verbatim>\<open>fun()\<close> returned (\<open>AfterFun\<close>); before \<^verbatim>\<open>if !g.waitAll\<close> (\<open>AtCancel\<close>);
  before the deferred function (\<open>AtDefer\<close>); ended after the deferred function
  (\<open>Returned\<close>); ended by the \<^verbatim>\<open>return\<close> of line 129 (\<open>ReturnedEarly\<close>).
\<close>

datatype place = AtAcquire | AcquireFailed | AtFun | AfterFun | AtCancel | AtDefer
  | Returned | ReturnedEarly

text \<open>
  A goroutine: \<open>body k\<close> is what the \<open>k\<close>-th invocation (from 0) of the caller's closure
  \<^verbatim>\<open>f\<close> returns, \<open>calls\<close> how often it has been invoked, \<open>err_local\<close> the local
  variable \<^verbatim>\<open>err\<close>.
\<close>

record goroutine =
  body :: "nat \<Rightarrow> error option"
  at :: place
  calls :: nat
  err_local :: "error option"

definition invoke :: "(nat \<Rightarrow> error option) \<Rightarrow> nat \<Rightarrow> error option \<times> nat" where
  "invoke t k = (t k, Suc k)"

datatype caller_place = Idle | InWait

text \<open>
  The program: the group, the goroutines spawned so far, the caller (outside or inside
  \<^verbatim>\<open>Wait\<close>), what the finished \<^verbatim>\<open>Wait\<close> calls returned (latest first), and whether a
  goroutine has panicked. No goroutine recovers, so a panic ends the whole program: the
  model stops there, and nothing is observed of what the runtime does on its way out.
  The caller is one thread: it calls \<^verbatim>\<open>Go\<close> and \<^verbatim>\<open>Wait\<close> one after the other, and is
  blocked while inside \<^verbatim>\<open>Wait\<close>.
\<close>

record world =
  grp :: group
  units :: "goroutine list"
  caller :: caller_place
  waits :: "error list option list"
  panicked :: bool

definition start :: "group \<Rightarrow> world" where
  "start g = \<lparr>grp = g, units = [], caller = Idle, waits = [], panicked = False\<rparr>"

definition set_unit :: "nat \<Rightarrow> goroutine \<Rightarrow> world \<Rightarrow> world" where
  "set_unit i u w = w\<lparr>units := (units w)[i := u]\<rparr>"

text \<open>\<^verbatim>\<open>if err != nil { ... guarded send ... }\<close> on the goroutine's local \<^verbatim>\<open>err\<close>.\<close>

definition record_local :: "goroutine \<Rightarrow> group \<Rightarrow> group option" where
  "record_local u g = (case err_local u of None \<Rightarrow> Some g | Some e \<Rightarrow> record_err e g)"

text \<open>
  \<^verbatim>\<open>fun()\<close> (line 140). \<^verbatim>\<open>fun\<close> is assigned only inside \<^verbatim>\<open>if g.retryMode != nil\<close>
  (lines 100 to 117); otherwise it is the \<^verbatim>\<open>nil\<close> function and the call panics
  (\<open>None\<close>). With a retry option, the wrapper builds the strategy, runs
  \<^verbatim>\<open>backoff.Retry(f, backoffOpt)\<close> and sets \<^verbatim>\<open>wrapped\<close> on its way out.
\<close>

definition call_fun ::
  "'x ExponentialBackOff_lib \<Rightarrow> group \<Rightarrow> goroutine \<Rightarrow> (group \<times> goroutine) option" where
  "call_fun L g u =
     (case retryMode g of
        None \<Rightarrow> None
      | Some ro \<Rightarrow>
          Some (g\<lparr>retryMode := Some (ro\<lparr>wrapped := True\<rparr>)\<rparr>,
                u\<lparr>at := AfterFun,
                  err_local := fst (Retry L (invoke (body u)) (backoffOpt L ro) (calls u)),
                  calls := fst (snd (Retry L (invoke (body u)) (backoffOpt L ro) (calls u)))\<rparr>))"

text \<open>
  The deferred function (lines 133 to 138): \<^verbatim>\<open>g.sema.Release(1)\<close> if there is a
  semaphore, then \<^verbatim>\<open>g.wg.Done()\<close>. Both library calls panic (\<open>None\<close>) on a counter
  that would become negative.
\<close>

definition deferred :: "group \<Rightarrow> group option" where
  "deferred g =
     (case sema g of
        None \<Rightarrow> (if wg g - 1 < 0 then None else Some (g\<lparr>wg := wg g - 1\<rparr>))
      | Some sm \<Rightarrow>
          if sem_cur sm - 1 < 0 \<or> wg g - 1 < 0 then None
          else Some (g\<lparr>sema := Some (sm\<lparr>sem_cur := sem_cur sm - 1\<rparr>), wg := wg g - 1\<rparr>))"

text \<open>The next statement of goroutine \<open>i\<close>, which is \<open>u\<close>; \<open>None\<close> when it cannot move.\<close>

definition run_unit :: "'x ExponentialBackOff_lib \<Rightarrow> nat \<Rightarrow> goroutine \<Rightarrow> world \<Rightarrow> world option" where
  "run_unit L i u w =
     (case at u of
        AtAcquire \<Rightarrow>
          (if sema (grp w) = None then Some (set_unit i (u\<lparr>at := AtFun\<rparr>) w) else None)
      | AcquireFailed \<Rightarrow>
          (case record_local u (grp w) of
             None \<Rightarrow> None
           | Some g' \<Rightarrow> Some (set_unit i (u\<lparr>at := ReturnedEarly\<rparr>) (w\<lparr>grp := g'\<rparr>)))
      | AtFun \<Rightarrow>
          (case call_fun L (grp w) u of
             None \<Rightarrow> Some (w\<lparr>panicked := True\<rparr>)
           | Some (g', u') \<Rightarrow> Some (set_unit i u' (w\<lparr>grp := g'\<rparr>)))
      | AfterFun \<Rightarrow>
          (case record_local u (grp w) of
             None \<Rightarrow> None
           | Some g' \<Rightarrow> Some (set_unit i (u\<lparr>at := AtCancel\<rparr>) (w\<lparr>grp := g'\<rparr>)))
      | AtCancel \<Rightarrow>
          Some (set_unit i (u\<lparr>at := AtDefer\<rparr>)
                 (w\<lparr>grp := (if \<not> waitAll (grp w) then errOnce_Do_cancel (grp w) else grp w)\<rparr>))
      | AtDefer \<Rightarrow>
          (case deferred (grp w) of
             None \<Rightarrow> Some (w\<lparr>panicked := True\<rparr>)
           | Some g' \<Rightarrow> Some (set_unit i (u\<lparr>at := Returned\<rparr>) (w\<lparr>grp := g'\<rparr>)))
      | Returned \<Rightarrow> None
      | ReturnedEarly \<Rightarrow> None)"

text \<open>
  What can happen next. The caller calls \<^verbatim>\<open>g.Go(f)\<close> (\<open>CallGo\<close>: \<^verbatim>\<open>g.wg.Add(1)\<close> and the
  goroutine is spawned), calls \<^verbatim>\<open>g.Wait()\<close> (\<open>CallWait\<close>) or returns from it
  (\<open>WaitReturns\<close>); the parent context is cancelled (\<open>CancelParent\<close>); goroutine \<open>i\<close>
  gets its permit (\<open>Acquired i\<close>: \<^verbatim>\<open>Acquire\<close> returns \<^verbatim>\<open>nil\<close>, possible while a permit
  is free), is refused (\<open>AcquireCancelled i\<close>: \<^verbatim>\<open>Acquire\<close> returns \<^verbatim>\<open>ctx.Err()\<close>, possible
  once the context is done), or executes its next statement (\<open>Step i\<close>).
\<close>

datatype event =
    CallGo "nat \<Rightarrow> error option"
  | CallWait
  | WaitReturns
  | CancelParent
  | Acquired nat
  | AcquireCancelled nat
  | Step nat

text \<open>One step of the program; \<open>None\<close> when the event cannot happen in this state.\<close>

fun step :: "'x ExponentialBackOff_lib \<Rightarrow> event \<Rightarrow> world \<Rightarrow> world option" where
  "step L (CallGo t) w =
     (if panicked w \<or> caller w \<noteq> Idle then None
      else Some (w\<lparr>grp := (grp w)\<lparr>wg := wg (grp w) + 1\<rparr>,
                  units := units w @ [\<lparr>body = t, at = AtAcquire, calls = 0, err_local = None\<rparr>]\<rparr>))"
| "step L CallWait w =
     (if panicked w \<or> caller w \<noteq> Idle then None else Some (w\<lparr>caller := InWait\<rparr>))"
| "step L WaitReturns w =
     (if panicked w \<or> caller w \<noteq> InWait then None
      else (case Wait (grp w) of
              None \<Rightarrow> None
            | Some (r, g') \<Rightarrow> Some (w\<lparr>grp := g', caller := Idle, waits := r # waits w\<rparr>)))"
| "step L CancelParent w =
     (if panicked w then None else Some (w\<lparr>grp := cancel (grp w)\<rparr>))"
| "step L (Acquired i) w =
     (if panicked w \<or> \<not> i < length (units w) \<or> at (units w ! i) \<noteq> AtAcquire then None
      else (case sema (grp w) of
              None \<Rightarrow> None
            | Some sm \<Rightarrow>
                if 1 \<le> sem_size sm - sem_cur sm
                then Some (set_unit i ((units w ! i)\<lparr>at := AtFun\<rparr>)
                             (w\<lparr>grp := (grp w)\<lparr>sema := Some (sm\<lparr>sem_cur := sem_cur sm + 1\<rparr>)\<rparr>\<rparr>))
                else None))"
| "step L (AcquireCancelled i) w =
     (if panicked w \<or> \<not> i < length (units w) \<or> at (units w ! i) \<noteq> AtAcquire then None
      else (case sema (grp w) of
              None \<Rightarrow> None
            | Some sm \<Rightarrow>
                if ctx (grp w)
                then Some (set_unit i ((units w ! i)\<lparr>at := AcquireFailed, err_local := Some Canceled\<rparr>) w)
                else None))"
| "step L (Step i) w =
     (if panicked w \<or> \<not> i < length (units w) then None else run_unit L i (units w ! i) w)"

text \<open>A run: the events in order, from a state; \<open>None\<close> when one of them cannot happen.\<close>

fun exec :: "'x ExponentialBackOff_lib \<Rightarrow> event list \<Rightarrow> world \<Rightarrow> world option" where
  "exec L [] w = Some w"
| "exec L (ev # evs) w = (case step L ev w of None \<Rightarrow> None | Some w' \<Rightarrow> exec L evs w')"

section \<open>Auxiliary notions for the statements\<close>

text \<open>The task's private state after \<open>k\<close> invocations of its body.\<close>

definition attempt :: "('s \<Rightarrow> error option \<times> 's) \<Rightarrow> nat \<Rightarrow> 's \<Rightarrow> 's" where
  "attempt operation k s = ((\<lambda>t. snd (operation t)) ^^ k) s"

text \<open>The state of the library's curve after \<open>k\<close> of its \<^verbatim>\<open>NextBackOff()\<close> calls.\<close>

definition lib_after :: "'x ExponentialBackOff_lib \<Rightarrow> nat \<Rightarrow> 'x \<Rightarrow> 'x" where
  "lib_after L k x = ((\<lambda>y. snd (lib_NextBackOff L y)) ^^ k) x"

text \<open>
  A strategy whose next \<open>k\<close> answers, while attempts remain, are not the stop value:
  the fixed delay must not be \<open>Stop\<close> itself (unless no answer is asked for), and the
  next \<open>k\<close> values of the library's curve, from the state it is in, must not be \<open>Stop\<close>.
\<close>

fun no_stop_within :: "'x ExponentialBackOff_lib \<Rightarrow> nat \<Rightarrow> 'x BackOff \<Rightarrow> bool" where
  "no_stop_within L k (ZeroB z) = True"
| "no_stop_within L k (ConstantB c) = (k = 0 \<or> interval c \<noteq> Stop)"
| "no_stop_within L k (ExponentialB e) =
     (\<forall>j<k. fst (lib_NextBackOff L (lib_after L j (eb e))) \<noteq> Stop)"

text \<open>
  Modelled from the spec: a stand-in for the library's exponential curve without jitter
  (section 4.3: "starts at a small base interval, multiplies by a constant factor each
  attempt"): it starts at 500, doubles each time, and \<^verbatim>\<open>Reset\<close> puts it back to 500.
  The examples use it, and a body that fails on every attempt with the attempt's
  number.
\<close>

definition doubling_lib :: "Duration ExponentialBackOff_lib" where
  "doubling_lib = \<lparr>lib_NewExponentialBackOff = 500, lib_NextBackOff = (\<lambda>x. (x, 2 * x)),
     lib_Reset = (\<lambda>x. 500)\<rparr>"

definition failing_body :: "nat \<Rightarrow> error option \<times> nat" where
  "failing_body k = (Some (Failure k), Suc k)"

text \<open>
  Modelled from the spec: a second stand-in for the library's exponential curve, with
  the jitter of section 4.3 ("optionally randomized within a jitter band"). Its state is
  the current interval and the state of the random source; a value is the interval
  plus the jitter drawn, the interval doubles, the random source moves on (by 7), and
  \<^verbatim>\<open>Reset\<close> puts the interval back to 500 without rewinding the random source.
\<close>

definition jitter_lib :: "(Duration \<times> Duration) ExponentialBackOff_lib" where
  "jitter_lib = \<lparr>lib_NewExponentialBackOff = (500, 0),
     lib_NextBackOff = (\<lambda>(i, r). (i + r, (2 * i, r + 7))),
     lib_Reset = (\<lambda>(i, r). (500, r))\<rparr>"

text \<open>The number of \<^verbatim>\<open>Go\<close> calls among the events of a run.\<close>

definition submitted :: "event list \<Rightarrow> nat" where
  "submitted evs = length (filter (\<lambda>ev. case ev of CallGo t \<Rightarrow> True | _ \<Rightarrow> False) evs)"

text \<open>The goroutines that have not yet run their deferred \<^verbatim>\<open>g.wg.Done()\<close>.\<close>

definition pending :: "goroutine list \<Rightarrow> nat" where
  "pending us = length (filter (\<lambda>u. at u \<noteq> Returned) us)"

text \<open>The counter of the wait group is the number of such goroutines.\<close>

definition inv_wg :: "world \<Rightarrow> bool" where
  "inv_wg w = (wg (grp w) = int (pending (units w)))"

text \<open>
  Concrete inputs for the examples: a retry option without retries, closures that
  always fail with a given error or always succeed, and two runs.
\<close>

definition no_retry :: RetryOption where
  "no_retry = \<lparr>Mode = Zero, Interval = 0, MaxRetries = 0, wrapped = False\<rparr>"

definition fails :: "nat \<Rightarrow> nat \<Rightarrow> error option" where
  "fails n k = Some (Failure n)"

definition succeeds :: "nat \<Rightarrow> error option" where
  "succeeds k = None"

definition leak_run :: "event list" where
  "leak_run = [CallGo (fails 1), CallGo (fails 2), Acquired 0, Step 0, Step 0, Step 0,
     AcquireCancelled 1, Step 1, Step 0, CallWait]"

definition one_failing_run :: "event list" where
  "one_failing_run = [CallGo (fails 1), Step 0, Step 0, Step 0, Step 0, Step 0, CallWait]"

text \<open>
  The group with its error channel holding \<open>xs\<close>. \<^verbatim>\<open>NewGroupWithContext\<close> builds the
  channel empty (\<open>xs = []\<close>), and the guarded send never adds to it; statements about
  what \<^verbatim>\<open>Wait\<close> returns are made for any contents.
\<close>

definition with_errs :: "error list \<Rightarrow> group \<Rightarrow> group" where
  "with_errs xs g = g\<lparr>err := map_option (\<lambda>ch. ch\<lparr>errs := xs\<rparr>) (err g)\<rparr>"

text \<open>
  A run that serves the tasks one after the other: \<^verbatim>\<open>g.Go(t)\<close>, then goroutine \<open>i\<close>
  gets its permit (\<open>sem\<close>: there is a semaphore) or skips the acquisition, and
  executes its five statements to its end; then the next task.
\<close>

fun serve :: "bool \<Rightarrow> nat \<Rightarrow> (nat \<Rightarrow> error option) \<Rightarrow> event list" where
  "serve sem i t = [CallGo t, if sem then Acquired i else Step i, Step i, Step i, Step i, Step i]"

fun serve_all :: "bool \<Rightarrow> nat \<Rightarrow> (nat \<Rightarrow> error option) list \<Rightarrow> event list" where
  "serve_all sem i [] = []"
| "serve_all sem i (t # ts) = serve sem i t @ serve_all sem (Suc i) ts"

text \<open>An error channel on which the guard of the send is false.\<close>

definition roomy :: "errCh option \<Rightarrow> bool" where
  "roomy E = (case E of None \<Rightarrow> True | Some ch \<Rightarrow> length (errs ch) \<le> cap_errs ch)"

text \<open>
  A state between two tasks of such a run: nothing is running, the caller is outside
  \<^verbatim>\<open>Wait\<close>, every goroutine has ended after its deferred function, no permit is held.
\<close>

definition quiet :: "bool \<Rightarrow> world \<Rightarrow> bool" where
  "quiet sem w =
     (\<not> panicked w \<and> caller w = Idle \<and> waits w = [] \<and> wg (grp w) = 0
      \<and> list_all (\<lambda>u. at u = Returned) (units w)
      \<and> retryMode (grp w) \<noteq> None \<and> roomy (err (grp w))
      \<and> (case sema (grp w) of
            None \<Rightarrow> \<not> sem
          | Some sm \<Rightarrow> sem \<and> sem_cur sm = 0 \<and> 1 \<le> sem_size sm))"

section \<open>The backoff strategies and the retry loop: proofs\<close>

lemma stop_when_not_positive:
  "\<not> 0 < sint (remainRetries (cc_of b)) \<Longrightarrow> NextBackOff L b = (Stop, b)"
  by (cases b) (simp_all add: zeroBackoff_NextBackOff_def constantBackoff_NextBackOff_def
      exponentialBackoff_NextBackOff_def Stop_def)

lemma next_when_positive:
  assumes "0 < sint (remainRetries (cc_of b))"
  shows "cc_of (snd (NextBackOff L b)) = dec_remain (cc_of b)"
    and "fst (NextBackOff L b) =
      (case b of ZeroB z \<Rightarrow> 0 | ConstantB c \<Rightarrow> interval c
       | ExponentialB e \<Rightarrow> fst (lib_NextBackOff L (eb e)))"
  using assms
  by (cases b; simp add: zeroBackoff_NextBackOff_def constantBackoff_NextBackOff_def
      exponentialBackoff_NextBackOff_def)+

lemma Retry_loop_stop:
  "\<not> 0 < sint (remainRetries (cc_of b)) \<Longrightarrow>
    Retry_loop L operation b s = (fst (operation s), snd (operation s), b)"
  by (subst Retry_loop.simps) (simp add: stop_when_not_positive)

lemma cc_of_Reset: "cc_of (Reset L b) = (cc_of b)\<lparr>remainRetries := maxRetries (cc_of b)\<rparr>"
  by (cases b) (simp_all add: zeroBackoff_Reset_def constantBackoff_Reset_def exponentialBackoff_Reset_def)

lemma attempt_Suc: "attempt operation (Suc k) s = attempt operation k (snd (operation s))"
  by (simp only: attempt_def funpow_Suc_right o_apply)

lemma attempt_0: "attempt operation 0 s = s"
  by (simp add: attempt_def)

lemma nexts_stopped:
  "\<not> 0 < sint (remainRetries (cc_of b)) \<Longrightarrow>
    nexts L n b = replicate n Stop \<and> after_nexts L n b = b"
  by (induction n) (simp_all add: stop_when_not_positive)

lemma cc_of_backoffOpt:
  "cc_of (backoffOpt L ro) = \<lparr>maxRetries = MaxRetries ro, remainRetries = MaxRetries ro\<rparr>"
  by (cases "Mode ro") (simp_all add: backoffOpt_def NewZeroBackoff_def NewConstantBackoff_def
      NewExponentialBackoff_def)

lemma lib_after_Suc: "lib_after L (Suc k) x = lib_after L k (snd (lib_NextBackOff L x))"
  by (simp only: lib_after_def funpow_Suc_right o_apply)

lemma lib_after_0: "lib_after L 0 x = x"
  by (simp add: lib_after_def)

lemma no_stop_within_step:
  assumes "no_stop_within L (Suc k) b" and "0 < sint (remainRetries (cc_of b))"
  shows "fst (NextBackOff L b) \<noteq> Stop \<and> no_stop_within L k (snd (NextBackOff L b))"
proof (cases b)
  case (ZeroB z)
  with assms show ?thesis
    by (simp add: zeroBackoff_NextBackOff_def Stop_def)
next
  case (ConstantB c)
  with assms show ?thesis
    by (simp add: constantBackoff_NextBackOff_def)
next
  case (ExponentialB e)
  from assms(1) ExponentialB
  have all: "\<forall>j<Suc k. fst (lib_NextBackOff L (lib_after L j (eb e))) \<noteq> Stop"
    by simp
  then have first: "fst (lib_NextBackOff L (eb e)) \<noteq> Stop"
    by (auto simp: lib_after_0 dest: spec [of _ 0])
  have rest: "\<forall>j<k. fst (lib_NextBackOff L (lib_after L j (snd (lib_NextBackOff L (eb e))))) \<noteq> Stop"
  proof (intro allI impI)
    fix j assume "j < k"
    then have "Suc j < Suc k" by simp
    with all have "fst (lib_NextBackOff L (lib_after L (Suc j) (eb e))) \<noteq> Stop" by blast
    then show "fst (lib_NextBackOff L (lib_after L j (snd (lib_NextBackOff L (eb e))))) \<noteq> Stop"
      by (simp add: lib_after_Suc)
  qed
  from ExponentialB assms(2) first rest show ?thesis
    by (simp add: exponentialBackoff_NextBackOff_def)
qed

lemma Retry_loop_always_failing:
  assumes "nat (sint (remainRetries (cc_of b))) = k"
    and "no_stop_within L k b"
    and "\<forall>j\<le>k. fst (operation (attempt operation j s)) \<noteq> None"
  shows "Retry_loop L (counted operation) b (n, s) =
      (fst (operation (attempt operation k s)), (n + k + 1, attempt operation (Suc k) s),
       after_nexts L (Suc k) b)"
  using assms
proof (induction k arbitrary: b s n)
  case 0
  then have np: "\<not> 0 < sint (remainRetries (cc_of b))" by simp
  from 0 have "fst (operation s) \<noteq> None" by (simp add: attempt_0)
  with np show ?case
    by (simp add: Retry_loop_stop counted_def attempt_def stop_when_not_positive)
next
  case (Suc k)
  then have pos: "0 < sint (remainRetries (cc_of b))" by simp
  let ?b' = "snd (NextBackOff L b)"
  from no_stop_within_step [OF Suc.prems(2) pos]
  have nz: "fst (NextBackOff L b) \<noteq> Stop" and ns': "no_stop_within L k ?b'"
    by simp_all
  have fail0: "fst (operation s) \<noteq> None"
    using Suc.prems(3) by (auto simp: attempt_def dest: spec [of _ 0])
  have k': "nat (sint (remainRetries (cc_of ?b'))) = k"
    using pos Suc.prems(1) by (simp add: next_when_positive(1) dec_remain_def sint_dec)
  have fails': "\<forall>j\<le>k. fst (operation (attempt operation j (snd (operation s)))) \<noteq> None"
  proof (intro allI impI)
    fix j assume "j \<le> k"
    then have "Suc j \<le> Suc k" by simp
    with Suc.prems(3) have "fst (operation (attempt operation (Suc j) s)) \<noteq> None" by blast
    then show "fst (operation (attempt operation j (snd (operation s)))) \<noteq> None"
      by (simp add: attempt_Suc)
  qed
  have step: "Retry_loop L (counted operation) b (n, s) =
      Retry_loop L (counted operation) ?b' (Suc n, snd (operation s))"
  proof -
    from fail0 obtain e where "fst (operation s) = Some e" by blast
    with nz show ?thesis by (subst Retry_loop.simps) (simp add: counted_def)
  qed
  show ?case
    unfolding step
    using Suc.IH [OF k' ns' fails', of "Suc n"]
    by (simp add: attempt_Suc)
qed

lemma Reset_next:
  assumes "\<forall>x. lib_Reset L x = lib_NewExponentialBackOff L"
  shows "Reset L (snd (NextBackOff L b)) = Reset L b"
  using assms
  by (cases b) (simp_all add: zeroBackoff_NextBackOff_def constantBackoff_NextBackOff_def
      exponentialBackoff_NextBackOff_def zeroBackoff_Reset_def constantBackoff_Reset_def
      exponentialBackoff_Reset_def dec_remain_def)

lemma Reset_next_plain:
  assumes "\<forall>e. b \<noteq> ExponentialB e"
  shows "Reset L (snd (NextBackOff L b)) = Reset L b \<and> (\<forall>e. snd (NextBackOff L b) \<noteq> ExponentialB e)"
  using assms
  by (cases b) (simp_all add: zeroBackoff_NextBackOff_def constantBackoff_NextBackOff_def
      zeroBackoff_Reset_def constantBackoff_Reset_def dec_remain_def)

lemma Reset_after_nexts:
  assumes "(\<forall>e. b \<noteq> ExponentialB e) \<or> (\<forall>x. lib_Reset L x = lib_NewExponentialBackOff L)"
  shows "Reset L (after_nexts L n b) = Reset L b"
  using assms
proof (induction n arbitrary: b)
  case 0
  show ?case by simp
next
  case (Suc n)
  from Suc.prems show ?case
  proof
    assume plain: "\<forall>e. b \<noteq> ExponentialB e"
    from Reset_next_plain [OF plain, of L] Suc.IH [of "snd (NextBackOff L b)"]
    show ?thesis by simp
  next
    assume lib: "\<forall>x. lib_Reset L x = lib_NewExponentialBackOff L"
    from Reset_next [OF lib, of b] Suc.IH [of "snd (NextBackOff L b)"] lib
    show ?thesis by simp
  qed
qed

lemma Reset_backoffOpt:
  assumes "Mode ro = Exponential \<longrightarrow> (\<forall>x. lib_Reset L x = lib_NewExponentialBackOff L)"
  shows "Reset L (backoffOpt L ro) = backoffOpt L ro"
  using assms
  by (cases "Mode ro") (simp_all add: backoffOpt_def NewZeroBackoff_def NewConstantBackoff_def
      NewExponentialBackoff_def zeroBackoff_Reset_def constantBackoff_Reset_def
      exponentialBackoff_Reset_def)

lemma after_nexts_exponential:
  "\<exists>e'. after_nexts L n (ExponentialB e) = ExponentialB e'
     \<and> eb e' = lib_after L (min n (nat (sint (remainRetries (e_cc e))))) (eb e)
     \<and> maxRetries (e_cc e') = maxRetries (e_cc e)"
proof (induction n arbitrary: e)
  case 0
  show ?case by (simp add: lib_after_0)
next
  case (Suc n)
  show ?case
  proof (cases "0 < sint (remainRetries (e_cc e))")
    case True
    let ?e1 = "e\<lparr>e_cc := dec_remain (e_cc e), eb := snd (lib_NextBackOff L (eb e))\<rparr>"
    from True have nx: "snd (NextBackOff L (ExponentialB e)) = ExponentialB ?e1"
      by (simp add: exponentialBackoff_NextBackOff_def)
    from True have r: "nat (sint (remainRetries (e_cc ?e1))) = nat (sint (remainRetries (e_cc e))) - 1"
      by (simp add: dec_remain_def sint_dec)
    from True have m: "min (Suc n) (nat (sint (remainRetries (e_cc e))))
        = Suc (min n (nat (sint (remainRetries (e_cc e))) - 1))"
      by auto
    from Suc.IH [of ?e1] obtain e' where
      e': "after_nexts L n (ExponentialB ?e1) = ExponentialB e'"
        "eb e' = lib_after L (min n (nat (sint (remainRetries (e_cc ?e1))))) (eb ?e1)"
        "maxRetries (e_cc e') = maxRetries (e_cc ?e1)"
      by blast
    have "eb e' = lib_after L (min (Suc n) (nat (sint (remainRetries (e_cc e))))) (eb e)"
      unfolding m lib_after_Suc using e'(2) r by simp
    with e'(1,3) nx show ?thesis
      by (simp add: dec_remain_def)
  next
    case False
    then have "\<not> 0 < sint (remainRetries (cc_of (ExponentialB e)))"
      by simp
    then have "after_nexts L (Suc n) (ExponentialB e) = ExponentialB e"
      by (rule nexts_stopped [THEN conjunct2])
    with False show ?thesis
      by (simp add: lib_after_0)
  qed
qed

lemma Reset_plain_backoffOpt:
  assumes "Mode ro \<noteq> Exponential"
  shows "Reset L (after_nexts L n (backoffOpt L ro)) = backoffOpt L ro"
proof -
  from assms have pre: "(\<forall>e. backoffOpt L ro \<noteq> ExponentialB e)
      \<or> (\<forall>x. lib_Reset L x = lib_NewExponentialBackOff L)"
    by (cases "Mode ro") (simp_all add: backoffOpt_def)
  from assms have "Reset L (backoffOpt L ro) = backoffOpt L ro"
    by (simp add: Reset_backoffOpt)
  with Reset_after_nexts [OF pre, of n] show ?thesis by simp
qed

lemma Reset_exponential_backoffOpt:
  assumes "Mode ro = Exponential"
  shows "Reset L (after_nexts L n (backoffOpt L ro)) =
      ExponentialB \<lparr>eb = lib_Reset L (lib_after L (min n (nat (sint (MaxRetries ro))))
                           (lib_NewExponentialBackOff L)),
                    e_cc = \<lparr>maxRetries = MaxRetries ro, remainRetries = MaxRetries ro\<rparr>\<rparr>"
proof -
  let ?e = "NewExponentialBackoff L (MaxRetries ro)"
  from assms have b: "backoffOpt L ro = ExponentialB ?e"
    by (simp add: backoffOpt_def)
  from after_nexts_exponential [of L n ?e] obtain e' where
    e': "after_nexts L n (ExponentialB ?e) = ExponentialB e'"
      "eb e' = lib_after L (min n (nat (sint (remainRetries (e_cc ?e))))) (eb ?e)"
      "maxRetries (e_cc e') = maxRetries (e_cc ?e)"
    by blast
  then show ?thesis
    unfolding b by (simp add: exponentialBackoff_Reset_def NewExponentialBackoff_def)
qed

text \<open>
  Claim C9, amended. For every strategy, after any number \<open>n\<close> of \<^verbatim>\<open>NextBackOff()\<close>
  calls, \<^verbatim>\<open>Reset()\<close> puts the remaining-attempts counter back to the configured
  maximum. For the no-delay and the fixed-delay strategy the strategy is then the one
  the constructor builds from the same configuration, so every sequence of
  \<^verbatim>\<open>NextBackOff()\<close> results after the reset is the sequence of a fresh instance. For the
  exponential strategy \<^verbatim>\<open>Reset()\<close> also calls the library's \<^verbatim>\<open>Reset\<close> on the curve, which
  has advanced once per call made while attempts remained; strategy and sequences are
  those of a fresh instance when that call gives the state of a new library object.
\<close>

theorem C9_reset_like_fresh:
  "remainRetries (cc_of (Reset L b)) = maxRetries (cc_of b)
   \<and> cc_of (Reset L (after_nexts L n (backoffOpt L ro)))
       = \<lparr>maxRetries = MaxRetries ro, remainRetries = MaxRetries ro\<rparr>
   \<and> (Mode ro \<noteq> Exponential \<longrightarrow>
        Reset L (after_nexts L n (backoffOpt L ro)) = backoffOpt L ro
      \<and> nexts L k (Reset L (after_nexts L n (backoffOpt L ro))) = nexts L k (backoffOpt L ro))
   \<and> (Mode ro = Exponential \<longrightarrow>
        Reset L (after_nexts L n (backoffOpt L ro)) =
          ExponentialB \<lparr>eb = lib_Reset L (lib_after L (min n (nat (sint (MaxRetries ro))))
                               (lib_NewExponentialBackOff L)),
                        e_cc = \<lparr>maxRetries = MaxRetries ro, remainRetries = MaxRetries ro\<rparr>\<rparr>
      \<and> (lib_Reset L (lib_after L (min n (nat (sint (MaxRetries ro)))) (lib_NewExponentialBackOff L))
            = lib_NewExponentialBackOff L \<longrightarrow>
          Reset L (after_nexts L n (backoffOpt L ro)) = backoffOpt L ro
        \<and> nexts L k (Reset L (after_nexts L n (backoffOpt L ro))) = nexts L k (backoffOpt L ro)))"
proof -
  have A: "remainRetries (cc_of (Reset L b)) = maxRetries (cc_of b)"
    by (simp add: cc_of_Reset)
  have B: "cc_of (Reset L (after_nexts L n (backoffOpt L ro)))
       = \<lparr>maxRetries = MaxRetries ro, remainRetries = MaxRetries ro\<rparr>"
  proof (cases "Mode ro = Exponential")
    case True
    then show ?thesis by (simp add: Reset_exponential_backoffOpt)
  next
    case False
    then show ?thesis by (simp add: Reset_plain_backoffOpt cc_of_backoffOpt)
  qed
  have C: "Mode ro \<noteq> Exponential \<longrightarrow>
        Reset L (after_nexts L n (backoffOpt L ro)) = backoffOpt L ro
      \<and> nexts L k (Reset L (after_nexts L n (backoffOpt L ro))) = nexts L k (backoffOpt L ro)"
    by (simp add: Reset_plain_backoffOpt)
  have D: "Mode ro = Exponential \<longrightarrow>
        Reset L (after_nexts L n (backoffOpt L ro)) =
          ExponentialB \<lparr>eb = lib_Reset L (lib_after L (min n (nat (sint (MaxRetries ro))))
                               (lib_NewExponentialBackOff L)),
                        e_cc = \<lparr>maxRetries = MaxRetries ro, remainRetries = MaxRetries ro\<rparr>\<rparr>
      \<and> (lib_Reset L (lib_after L (min n (nat (sint (MaxRetries ro)))) (lib_NewExponentialBackOff L))
            = lib_NewExponentialBackOff L \<longrightarrow>
          Reset L (after_nexts L n (backoffOpt L ro)) = backoffOpt L ro
        \<and> nexts L k (Reset L (after_nexts L n (backoffOpt L ro))) = nexts L k (backoffOpt L ro))"
  proof (intro impI conjI)
    assume ex: "Mode ro = Exponential"
    show r: "Reset L (after_nexts L n (backoffOpt L ro)) =
          ExponentialB \<lparr>eb = lib_Reset L (lib_after L (min n (nat (sint (MaxRetries ro))))
                               (lib_NewExponentialBackOff L)),
                        e_cc = \<lparr>maxRetries = MaxRetries ro, remainRetries = MaxRetries ro\<rparr>\<rparr>"
      using ex by (rule Reset_exponential_backoffOpt)
    assume "lib_Reset L (lib_after L (min n (nat (sint (MaxRetries ro)))) (lib_NewExponentialBackOff L))
            = lib_NewExponentialBackOff L"
    with r ex show eq: "Reset L (after_nexts L n (backoffOpt L ro)) = backoffOpt L ro"
      by (simp add: backoffOpt_def NewExponentialBackoff_def)
    then show "nexts L k (Reset L (after_nexts L n (backoffOpt L ro))) = nexts L k (backoffOpt L ro)"
      by simp
  qed
  from A B C D show ?thesis by blast
qed

text \<open>
  C9 with 3 retries, two calls and a reset: at the exponential strategy over the
  doubling curve, whose reset gives the state of a new curve, four calls give 500, 1000,
  2000 and stop, as from a fresh instance; at the fixed delay four calls give the
  interval three times and stop.
\<close>

theorem C9_reset_like_fresh_witness:
  "Reset doubling_lib (after_nexts doubling_lib 2
      (backoffOpt doubling_lib \<lparr>Mode = Exponential, Interval = 0, MaxRetries = 3, wrapped = False\<rparr>))
    = backoffOpt doubling_lib \<lparr>Mode = Exponential, Interval = 0, MaxRetries = 3, wrapped = False\<rparr>
   \<and> nexts doubling_lib 4 (Reset doubling_lib (after_nexts doubling_lib 2
      (backoffOpt doubling_lib \<lparr>Mode = Exponential, Interval = 0, MaxRetries = 3, wrapped = False\<rparr>)))
    = [500, 1000, 2000, Stop]
   \<and> nexts doubling_lib 4 (Reset doubling_lib (after_nexts doubling_lib 2
      (backoffOpt doubling_lib \<lparr>Mode = Constant, Interval = 30000000, MaxRetries = 3, wrapped = False\<rparr>)))
    = [30000000, 30000000, 30000000, Stop]"
proof -
  let ?re = "\<lparr>Mode = Exponential, Interval = 0, MaxRetries = 3, wrapped = False\<rparr>"
  let ?rc = "\<lparr>Mode = Constant, Interval = 30000000, MaxRetries = 3, wrapped = False\<rparr>"
  have h: "lib_Reset doubling_lib (lib_after doubling_lib (min 2 (nat (sint (MaxRetries ?re))))
      (lib_NewExponentialBackOff doubling_lib)) = lib_NewExponentialBackOff doubling_lib"
    by (simp add: doubling_lib_def)
  have fresh: "nexts doubling_lib 4 (backoffOpt doubling_lib ?re) = [500, 1000, 2000, Stop]"
    by (simp add: eval_nat_numeral backoffOpt_def NewExponentialBackoff_def
        exponentialBackoff_NextBackOff_def dec_remain_def doubling_lib_def Stop_def)
  have freshc: "nexts doubling_lib 4 (backoffOpt doubling_lib ?rc)
      = [30000000, 30000000, 30000000, Stop]"
    by (simp add: eval_nat_numeral backoffOpt_def NewConstantBackoff_def
        constantBackoff_NextBackOff_def dec_remain_def Stop_def)
  have me: "Mode ?re = Exponential" and mc: "Mode ?rc \<noteq> Exponential"
    by simp_all
  from C9_reset_like_fresh [of doubling_lib "ZeroB (NewZeroBackoff 0)" 2 ?re 4] me h
  have e: "Reset doubling_lib (after_nexts doubling_lib 2 (backoffOpt doubling_lib ?re))
        = backoffOpt doubling_lib ?re"
    "nexts doubling_lib 4 (Reset doubling_lib (after_nexts doubling_lib 2 (backoffOpt doubling_lib ?re)))
        = nexts doubling_lib 4 (backoffOpt doubling_lib ?re)"
    by blast+
  from C9_reset_like_fresh [of doubling_lib "ZeroB (NewZeroBackoff 0)" 2 ?rc 4] mc
  have c: "nexts doubling_lib 4 (Reset doubling_lib (after_nexts doubling_lib 2 (backoffOpt doubling_lib ?rc)))
        = nexts doubling_lib 4 (backoffOpt doubling_lib ?rc)"
    by blast
  from e c fresh freshc show ?thesis
    by (simp only: simp_thms)
qed

text \<open>
  Claim C9 as stated fails for the exponential strategy: over the curve with jitter,
  whose reset does not rewind the random source, two calls after two calls and a reset
  give 514 and 1021; a fresh instance gives 500 and 1007.
\<close>

theorem C9_counterexample:
  "nexts jitter_lib 2 (Reset jitter_lib (after_nexts jitter_lib 2
      (backoffOpt jitter_lib \<lparr>Mode = Exponential, Interval = 0, MaxRetries = 5, wrapped = False\<rparr>)))
    = [514, 1021]
   \<and> nexts jitter_lib 2
      (backoffOpt jitter_lib \<lparr>Mode = Exponential, Interval = 0, MaxRetries = 5, wrapped = False\<rparr>)
    = [500, 1007]"
  by (simp add: numeral_2_eq_2 backoffOpt_def NewExponentialBackoff_def
      exponentialBackoff_NextBackOff_def exponentialBackoff_Reset_def dec_remain_def jitter_lib_def)

lemma no_stop_within_Reset_backoffOpt:
  "no_stop_within L k (Reset L (backoffOpt L ro)) =
     (Mode ro = Zero \<or> (Mode ro = Constant \<and> (k = 0 \<or> Interval ro \<noteq> Stop))
      \<or> (Mode ro = Exponential \<and>
          (\<forall>j<k. fst (lib_NextBackOff L
                (lib_after L j (lib_Reset L (lib_NewExponentialBackOff L)))) \<noteq> Stop)))"
  by (cases "Mode ro") (simp_all add: backoffOpt_def NewZeroBackoff_def NewConstantBackoff_def
      NewExponentialBackoff_def zeroBackoff_Reset_def constantBackoff_Reset_def
      exponentialBackoff_Reset_def)

lemma doubling_no_stop:
  assumes "j < 3"
  shows "fst (lib_NextBackOff doubling_lib (lib_after doubling_lib j
      (lib_Reset doubling_lib (lib_NewExponentialBackOff doubling_lib)))) \<noteq> Stop"
proof -
  from assms consider "j = 0" | "j = Suc 0" | "j = Suc (Suc 0)" by arith
  then show ?thesis
    by cases (simp_all add: Stop_def doubling_lib_def lib_after_def)
qed

lemma jitter_no_stop:
  assumes "j < 3"
  shows "fst (lib_NextBackOff jitter_lib (lib_after jitter_lib j
      (lib_Reset jitter_lib (lib_NewExponentialBackOff jitter_lib)))) \<noteq> Stop"
proof -
  from assms consider "j = 0" | "j = Suc 0" | "j = Suc (Suc 0)" by arith
  then show ?thesis
    by cases (simp_all add: Stop_def jitter_lib_def lib_after_def)
qed

text \<open>
  Claim C6, amended. A task wrapped with \<^verbatim>\<open>MaxRetries = r\<close>, \<open>r \<ge> 0\<close>, whose body fails
  on each of its first \<open>r + 1\<close> attempts is invoked exactly \<open>r + 1\<close> times, and the
  wrapper returns the failure of the last attempt, provided the strategy does not
  answer with the stop value while attempts remain: always for the no-delay strategy;
  for the fixed delay when \<^verbatim>\<open>Interval\<close> is not \<open>-1\<close> (or \<open>r = 0\<close>); for the exponential
  delay when none of the first \<open>r\<close> values of the library's curve after its reset is
  the stop value. (What happens to the returned failure afterwards is the subject of
  claim C1.)
\<close>

theorem C6_retry_budget:
  assumes "0 \<le> sint (MaxRetries ro)"
    and "Mode ro = Zero
      \<or> (Mode ro = Constant \<and> (sint (MaxRetries ro) = 0 \<or> Interval ro \<noteq> Stop))
      \<or> (Mode ro = Exponential \<and>
          (\<forall>j<nat (sint (MaxRetries ro)). fst (lib_NextBackOff L
                (lib_after L j (lib_Reset L (lib_NewExponentialBackOff L)))) \<noteq> Stop))"
    and "\<forall>j\<le>nat (sint (MaxRetries ro)). fst (operation (attempt operation j s)) \<noteq> None"
  shows "fst (Retry L (counted operation) (backoffOpt L ro) (0, s))
        = fst (operation (attempt operation (nat (sint (MaxRetries ro))) s))
    \<and> fst (snd (Retry L (counted operation) (backoffOpt L ro) (0, s)))
        = (nat (sint (MaxRetries ro)) + 1, attempt operation (nat (sint (MaxRetries ro)) + 1) s)"
proof -
  let ?b = "Reset L (backoffOpt L ro)"
  have k: "nat (sint (remainRetries (cc_of ?b))) = nat (sint (MaxRetries ro))"
    by (simp add: cc_of_Reset cc_of_backoffOpt)
  have ns: "no_stop_within L (nat (sint (MaxRetries ro))) ?b"
    using assms(1,2) by (auto simp: no_stop_within_Reset_backoffOpt)
  show ?thesis
    unfolding Retry_def
    by (simp add: Retry_loop_always_failing [OF k ns assms(3)])
qed

text \<open>
  C6 with 3 retries, at the fixed delay of the repository's tests (30 ms) and at the
  exponential delay over both stand-ins for the library's curve: four invocations, and
  the failure returned is the one of the fourth.
\<close>

theorem C6_retry_budget_witness:
  "fst (Retry doubling_lib (counted failing_body)
      (backoffOpt doubling_lib \<lparr>Mode = Constant, Interval = 30000000, MaxRetries = 3, wrapped = False\<rparr>)
      (0, 0)) = Some (Failure 3)
   \<and> fst (snd (Retry doubling_lib (counted failing_body)
      (backoffOpt doubling_lib \<lparr>Mode = Constant, Interval = 30000000, MaxRetries = 3, wrapped = False\<rparr>)
      (0, 0))) = (4, 4)
   \<and> fst (Retry doubling_lib (counted failing_body)
      (backoffOpt doubling_lib \<lparr>Mode = Exponential, Interval = 0, MaxRetries = 3, wrapped = False\<rparr>)
      (0, 0)) = Some (Failure 3)
   \<and> fst (snd (Retry doubling_lib (counted failing_body)
      (backoffOpt doubling_lib \<lparr>Mode = Exponential, Interval = 0, MaxRetries = 3, wrapped = False\<rparr>)
      (0, 0))) = (4, 4)
   \<and> fst (snd (Retry jitter_lib (counted failing_body)
      (backoffOpt jitter_lib \<lparr>Mode = Exponential, Interval = 0, MaxRetries = 3, wrapped = False\<rparr>)
      (0, 0))) = (4, 4)"
proof -
  let ?ro = "\<lparr>Mode = Constant, Interval = 30000000, MaxRetries = 3, wrapped = False\<rparr>"
  let ?re = "\<lparr>Mode = Exponential, Interval = 0, MaxRetries = 3, wrapped = False\<rparr>"
  have h1: "0 \<le> sint (MaxRetries ?ro)" and e1: "0 \<le> sint (MaxRetries ?re)" by simp_all
  have h2: "Mode ?ro = Zero
      \<or> (Mode ?ro = Constant \<and> (sint (MaxRetries ?ro) = 0 \<or> Interval ?ro \<noteq> Stop))
      \<or> (Mode ?ro = Exponential \<and>
          (\<forall>j<nat (sint (MaxRetries ?ro)). fst (lib_NextBackOff doubling_lib
             (lib_after doubling_lib j (lib_Reset doubling_lib (lib_NewExponentialBackOff doubling_lib)))) \<noteq> Stop))"
    by (simp add: Stop_def)
  have e2: "Mode ?re = Zero
      \<or> (Mode ?re = Constant \<and> (sint (MaxRetries ?re) = 0 \<or> Interval ?re \<noteq> Stop))
      \<or> (Mode ?re = Exponential \<and>
          (\<forall>j<nat (sint (MaxRetries ?re)). fst (lib_NextBackOff doubling_lib
             (lib_after doubling_lib j (lib_Reset doubling_lib (lib_NewExponentialBackOff doubling_lib)))) \<noteq> Stop))"
    by (simp add: doubling_no_stop)
  have j2: "Mode ?re = Zero
      \<or> (Mode ?re = Constant \<and> (sint (MaxRetries ?re) = 0 \<or> Interval ?re \<noteq> Stop))
      \<or> (Mode ?re = Exponential \<and>
          (\<forall>j<nat (sint (MaxRetries ?re)). fst (lib_NextBackOff jitter_lib
             (lib_after jitter_lib j (lib_Reset jitter_lib (lib_NewExponentialBackOff jitter_lib)))) \<noteq> Stop))"
    by (simp add: jitter_no_stop)
  have h3: "\<forall>j\<le>nat (sint (MaxRetries ?ro)). fst (failing_body (attempt failing_body j 0)) \<noteq> None"
    and e3: "\<forall>j\<le>nat (sint (MaxRetries ?re)). fst (failing_body (attempt failing_body j 0)) \<noteq> None"
    by (simp_all add: failing_body_def)
  have a: "attempt failing_body 3 0 = 3" "attempt failing_body 4 0 = 4"
    by (simp_all add: attempt_def failing_body_def eval_nat_numeral)
  have f: "fst (failing_body 3) = Some (Failure 3)"
    by (simp add: failing_body_def)
  from C6_retry_budget [OF h1 h2 h3] C6_retry_budget [OF e1 e2 e3] C6_retry_budget [OF e1 j2 e3] a f
  show ?thesis
    by simp
qed

text \<open>
  Claim C6 as stated fails: with the fixed delay \<^verbatim>\<open>Interval = -1\<close>, which is the stop
  value, and \<^verbatim>\<open>MaxRetries = 3\<close>, a body that always fails is invoked once, not four
  times.
\<close>

theorem C6_counterexample:
  "fst (snd (Retry doubling_lib (counted failing_body)
      (backoffOpt doubling_lib \<lparr>Mode = Constant, Interval = - 1, MaxRetries = 3, wrapped = False\<rparr>)
      (0, 0))) = (1, 1)"
  by (simp add: Retry_def backoffOpt_def NewConstantBackoff_def constantBackoff_Reset_def
      Retry_loop.simps [of _ _ "ConstantB _"] counted_def failing_body_def
      constantBackoff_NextBackOff_def Stop_def)

text \<open>
  Claim C7, amended. For every strategy: when the remaining-attempts counter is zero
  or negative, \<^verbatim>\<open>NextBackOff()\<close> returns the stop value and changes nothing; when it
  is positive, the counter goes down by one and the result is \<open>0\<close> (no delay), the
  configured interval, which stays as it is (fixed delay), or what the library's curve
  returns next (exponential delay). With \<^verbatim>\<open>MaxRetries = 0\<close> the first call returns the
  stop value and the wrapper invokes the task once.
\<close>

theorem C7_next_budget:
  "(\<not> 0 < sint (remainRetries (cc_of b)) \<longrightarrow> NextBackOff L b = (Stop, b))
   \<and> (0 < sint (remainRetries (cc_of b)) \<longrightarrow>
        cc_of (snd (NextBackOff L b)) = (cc_of b)\<lparr>remainRetries := remainRetries (cc_of b) - 1\<rparr>
      \<and> sint (remainRetries (cc_of (snd (NextBackOff L b)))) = sint (remainRetries (cc_of b)) - 1
      \<and> fst (NextBackOff L b) =
          (case b of ZeroB z \<Rightarrow> 0 | ConstantB c \<Rightarrow> interval c
           | ExponentialB e \<Rightarrow> fst (lib_NextBackOff L (eb e))))
   \<and> interval (snd (constantBackoff_NextBackOff c)) = interval c
   \<and> (MaxRetries ro = 0 \<longrightarrow>
        fst (NextBackOff L (backoffOpt L ro)) = Stop
      \<and> fst (snd (Retry L (counted operation) (backoffOpt L ro) (0, s))) = (1, snd (operation s)))"
proof -
  have A: "\<not> 0 < sint (remainRetries (cc_of b)) \<longrightarrow> NextBackOff L b = (Stop, b)"
    by (simp add: stop_when_not_positive)
  have B: "0 < sint (remainRetries (cc_of b)) \<longrightarrow>
        cc_of (snd (NextBackOff L b)) = (cc_of b)\<lparr>remainRetries := remainRetries (cc_of b) - 1\<rparr>
      \<and> sint (remainRetries (cc_of (snd (NextBackOff L b)))) = sint (remainRetries (cc_of b)) - 1
      \<and> fst (NextBackOff L b) =
          (case b of ZeroB z \<Rightarrow> 0 | ConstantB c \<Rightarrow> interval c
           | ExponentialB e \<Rightarrow> fst (lib_NextBackOff L (eb e)))"
    by (simp add: next_when_positive dec_remain_def sint_dec)
  have C: "interval (snd (constantBackoff_NextBackOff c)) = interval c"
    by (simp add: constantBackoff_NextBackOff_def)
  have D: "MaxRetries ro = 0 \<longrightarrow>
        fst (NextBackOff L (backoffOpt L ro)) = Stop
      \<and> fst (snd (Retry L (counted operation) (backoffOpt L ro) (0, s))) = (1, snd (operation s))"
  proof
    assume z: "MaxRetries ro = 0"
    then have np: "\<not> 0 < sint (remainRetries (cc_of (backoffOpt L ro)))"
      and np': "\<not> 0 < sint (remainRetries (cc_of (Reset L (backoffOpt L ro))))"
      by (simp_all add: cc_of_backoffOpt cc_of_Reset)
    show "fst (NextBackOff L (backoffOpt L ro)) = Stop
      \<and> fst (snd (Retry L (counted operation) (backoffOpt L ro) (0, s))) = (1, snd (operation s))"
      by (simp add: stop_when_not_positive [OF np] Retry_def Retry_loop_stop [OF np'] counted_def)
  qed
  from A B C D show ?thesis by blast
qed

text \<open>
  C7 at the fixed-delay strategy: no budget gives the stop value, a budget of 3 gives
  the interval and leaves 2; and a no-delay wrapper without retries runs the body once.
\<close>

theorem C7_next_budget_witness:
  "NextBackOff doubling_lib (ConstantB (NewConstantBackoff 0 30000000))
      = (Stop, ConstantB (NewConstantBackoff 0 30000000))
   \<and> NextBackOff doubling_lib (ConstantB (NewConstantBackoff 3 30000000))
      = (30000000, ConstantB \<lparr>interval = 30000000, c_cc = \<lparr>maxRetries = 3, remainRetries = 2\<rparr>\<rparr>)
   \<and> fst (snd (Retry doubling_lib (counted failing_body)
        (backoffOpt doubling_lib \<lparr>Mode = Zero, Interval = 0, MaxRetries = 0, wrapped = False\<rparr>) (0, 0)))
      = (1, 1)"
proof -
  let ?ro = "\<lparr>Mode = Zero, Interval = 0, MaxRetries = 0, wrapped = False\<rparr>"
  have a: "\<not> 0 < sint (remainRetries (cc_of (ConstantB (NewConstantBackoff 0 30000000) :: Duration BackOff)))"
    by (simp add: NewConstantBackoff_def)
  have b: "MaxRetries ?ro = 0" by simp
  have c: "NextBackOff doubling_lib (ConstantB (NewConstantBackoff 3 30000000))
      = (30000000, ConstantB \<lparr>interval = 30000000, c_cc = \<lparr>maxRetries = 3, remainRetries = 2\<rparr>\<rparr>)"
    by (simp add: NewConstantBackoff_def constantBackoff_NextBackOff_def dec_remain_def)
  from C7_next_budget [of "ConstantB (NewConstantBackoff 0 30000000)" doubling_lib
      "NewConstantBackoff 3 30000000" ?ro failing_body 0] a b c
  show ?thesis by (simp add: failing_body_def)
qed

text \<open>
  Claim C7 as stated fails: a no-delay strategy built with \<^verbatim>\<open>MaxRetries = -1\<close> has a
  counter that is not zero, and yet \<^verbatim>\<open>NextBackOff()\<close> returns the stop value and does
  not decrement it.
\<close>

theorem C7_counterexample:
  "remainRetries (z_cc (NewZeroBackoff (- 1))) \<noteq> 0
   \<and> fst (zeroBackoff_NextBackOff (NewZeroBackoff (- 1))) = Stop
   \<and> remainRetries (z_cc (snd (zeroBackoff_NextBackOff (NewZeroBackoff (- 1))))) = - 1"
  by (simp add: NewZeroBackoff_def zeroBackoff_NextBackOff_def Stop_def)

text \<open>
  Claim C10. For every strategy built with a negative \<^verbatim>\<open>MaxRetries\<close>: the counter
  starts negative, every \<^verbatim>\<open>NextBackOff()\<close> call returns the stop value and leaves the
  strategy as it is, which is also what the strategy built with \<^verbatim>\<open>MaxRetries = 0\<close>
  returns; the wrapped task's body is invoked exactly once, and wrapper and task end
  as they do with \<^verbatim>\<open>MaxRetries = 0\<close>.
\<close>

theorem C10_negative_budget:
  assumes "sint (MaxRetries ro) < 0"
  shows "sint (remainRetries (cc_of (backoffOpt L ro))) < 0
    \<and> nexts L n (backoffOpt L ro) = replicate n Stop
    \<and> after_nexts L n (backoffOpt L ro) = backoffOpt L ro
    \<and> nexts L n (backoffOpt L ro) = nexts L n (backoffOpt L (ro\<lparr>MaxRetries := 0\<rparr>))
    \<and> fst (Retry L (counted operation) (backoffOpt L ro) (0, s)) = fst (operation s)
    \<and> fst (snd (Retry L (counted operation) (backoffOpt L ro) (0, s))) = (1, snd (operation s))
    \<and> fst (Retry L (counted operation) (backoffOpt L ro) (0, s))
        = fst (Retry L (counted operation) (backoffOpt L (ro\<lparr>MaxRetries := 0\<rparr>)) (0, s))
    \<and> fst (snd (Retry L (counted operation) (backoffOpt L ro) (0, s)))
        = fst (snd (Retry L (counted operation) (backoffOpt L (ro\<lparr>MaxRetries := 0\<rparr>)) (0, s)))"
proof -
  let ?z = "ro\<lparr>MaxRetries := 0\<rparr>"
  have np: "\<not> 0 < sint (remainRetries (cc_of (backoffOpt L ro)))"
    and npr: "\<not> 0 < sint (remainRetries (cc_of (Reset L (backoffOpt L ro))))"
    using assms by (simp_all add: cc_of_backoffOpt cc_of_Reset)
  have zp: "\<not> 0 < sint (remainRetries (cc_of (backoffOpt L ?z)))"
    and zpr: "\<not> 0 < sint (remainRetries (cc_of (Reset L (backoffOpt L ?z))))"
    by (simp_all add: cc_of_backoffOpt cc_of_Reset)
  have neg: "sint (remainRetries (cc_of (backoffOpt L ro))) < 0"
    using assms by (simp add: cc_of_backoffOpt)
  show ?thesis
    using neg
    by (simp add: nexts_stopped [OF np] nexts_stopped [OF zp] Retry_def
        Retry_loop_stop [OF npr] Retry_loop_stop [OF zpr] counted_def)
qed

text \<open>C10 at the exponential strategy with \<^verbatim>\<open>MaxRetries = -2\<close>.\<close>

theorem C10_negative_budget_witness:
  "nexts doubling_lib 3
      (backoffOpt doubling_lib \<lparr>Mode = Exponential, Interval = 0, MaxRetries = - 2, wrapped = False\<rparr>)
      = [Stop, Stop, Stop]
   \<and> remainRetries (cc_of (after_nexts doubling_lib 3
      (backoffOpt doubling_lib \<lparr>Mode = Exponential, Interval = 0, MaxRetries = - 2, wrapped = False\<rparr>)))
      = - 2
   \<and> fst (Retry doubling_lib (counted failing_body)
      (backoffOpt doubling_lib \<lparr>Mode = Exponential, Interval = 0, MaxRetries = - 2, wrapped = False\<rparr>)
      (0, 0)) = Some (Failure 0)
   \<and> fst (snd (Retry doubling_lib (counted failing_body)
      (backoffOpt doubling_lib \<lparr>Mode = Exponential, Interval = 0, MaxRetries = - 2, wrapped = False\<rparr>)
      (0, 0))) = (1, 1)"
proof -
  let ?ro = "\<lparr>Mode = Exponential, Interval = 0, MaxRetries = - 2, wrapped = False\<rparr>"
  have h: "sint (MaxRetries ?ro) < 0" by simp
  from C10_negative_budget [OF h, of doubling_lib 3 failing_body 0]
  show ?thesis
    by (simp add: failing_body_def eval_nat_numeral cc_of_backoffOpt)
qed

section \<open>The group: proofs\<close>

lemma record_err_same: "record_err e g = Some g' \<Longrightarrow> g' = g"
  by (auto simp: record_err_def chan_send_def split: option.splits if_splits)

lemma record_local_same: "record_local u g = Some g' \<Longrightarrow> g' = g"
  by (auto simp: record_local_def split: option.splits dest: record_err_same)

lemma pending_update_same:
  "i < length us \<Longrightarrow> at (us ! i) \<noteq> Returned \<Longrightarrow> at u \<noteq> Returned \<Longrightarrow>
    pending (us[i := u]) = pending us"
  unfolding pending_def
proof (induction us arbitrary: i)
  case Nil
  then show ?case by simp
next
  case (Cons a us)
  then show ?case by (cases i) simp_all
qed

lemma pending_update_done:
  "i < length us \<Longrightarrow> at (us ! i) \<noteq> Returned \<Longrightarrow> at u = Returned \<Longrightarrow>
    int (pending (us[i := u])) = int (pending us) - 1"
  unfolding pending_def
proof (induction us arbitrary: i)
  case Nil
  then show ?case by simp
next
  case (Cons a us)
  then show ?case by (cases i) simp_all
qed

lemma pending_append: "pending (us @ [u]) = pending us + (if at u \<noteq> Returned then 1 else 0)"
  by (simp add: pending_def)

lemma pending_0: "pending us = 0 \<Longrightarrow> list_all (\<lambda>u. at u = Returned) us"
  by (induction us) (simp_all add: pending_def split: if_splits)

text \<open>What one statement of a goroutine does to the fields the invariants speak of.\<close>

lemma run_unit_fields:
  assumes "run_unit L i u w = Some w'" and "i < length (units w)" and "u = units w ! i"
    and "wg (grp w) = int (pending (units w))"
  shows "wg (grp w') = int (pending (units w'))"
    and "waitAll (grp w') = waitAll (grp w)"
    and "err (grp w') = err (grp w)"
    and "length (units w') = length (units w)"
    and "caller w' = caller w"
    and "waits w' = waits w"
  using assms
  by (auto simp: run_unit_def set_unit_def call_fun_def deferred_def errOnce_Do_cancel_def
      cancel_def pending_update_same pending_update_done
      split: place.splits option.splits if_splits dest!: record_local_same)

lemma step_fields:
  assumes "step L ev w = Some w'" and "inv_wg w"
  shows "inv_wg w'"
    and "waitAll (grp w') = waitAll (grp w)"
    and "err (grp w') = err (grp w)"
    and "length (units w') = length (units w) + submitted [ev]"
proof -
  have "inv_wg w' \<and> waitAll (grp w') = waitAll (grp w) \<and> err (grp w') = err (grp w)
      \<and> length (units w') = length (units w) + submitted [ev]"
  proof (cases ev)
    case (CallGo t)
    with assms show ?thesis
      by (auto simp: inv_wg_def pending_append submitted_def split: if_splits)
  next
    case CallWait
    with assms show ?thesis
      by (auto simp: inv_wg_def submitted_def split: if_splits)
  next
    case WaitReturns
    with assms show ?thesis
      by (auto simp: inv_wg_def submitted_def Wait_def cancel_def split: if_splits)
  next
    case CancelParent
    with assms show ?thesis
      by (auto simp: inv_wg_def submitted_def cancel_def split: if_splits)
  next
    case (Acquired i)
    with assms show ?thesis
      by (auto simp: inv_wg_def submitted_def set_unit_def pending_update_same
          split: if_splits option.splits)
  next
    case (AcquireCancelled i)
    with assms show ?thesis
      by (auto simp: inv_wg_def submitted_def set_unit_def pending_update_same
          split: if_splits option.splits)
  next
    case (Step i)
    with assms have r: "run_unit L i (units w ! i) w = Some w'" and i: "i < length (units w)"
      by (auto split: if_splits)
    from run_unit_fields [OF r i refl] assms(2) Step show ?thesis
      by (simp add: inv_wg_def submitted_def)
  qed
  then show "inv_wg w'"
    and "waitAll (grp w') = waitAll (grp w)"
    and "err (grp w') = err (grp w)"
    and "length (units w') = length (units w) + submitted [ev]"
    by simp_all
qed

lemma submitted_Cons: "submitted (ev # evs) = submitted [ev] + submitted evs"
  by (simp add: submitted_def)

lemma exec_fields:
  assumes "exec L evs w = Some w'" and "inv_wg w"
  shows "inv_wg w' \<and> waitAll (grp w') = waitAll (grp w) \<and> err (grp w') = err (grp w)
      \<and> length (units w') = length (units w) + submitted evs"
  using assms
proof (induction evs arbitrary: w)
  case Nil
  then show ?case by (simp add: submitted_def)
next
  case (Cons ev evs)
  from Cons.prems(1) obtain w1 where s: "step L ev w = Some w1" and e: "exec L evs w1 = Some w'"
    by (auto split: option.splits)
  from step_fields [OF s Cons.prems(2)] Cons.IH [OF e] show ?case
    by (simp add: submitted_Cons [of ev evs])
qed

lemma inv_wg_start: "inv_wg (start (NewGroupWithContext p mc wa rm me))"
  by (simp add: inv_wg_def start_def NewGroupWithContext_def pending_def)

lemma start_fields:
  "waitAll (grp (start (NewGroupWithContext p mc wa rm me))) = wa"
  "err (grp (start (NewGroupWithContext p mc wa rm me)))
     = (if 0 < me then Some \<lparr>errs = [], cap_errs = nat me\<rparr> else None)"
  "units (start (NewGroupWithContext p mc wa rm me)) = []"
  by (simp_all add: start_def NewGroupWithContext_def)

text \<open>The steps that can fire the cancellation signal.\<close>
lemma step_fires:
  assumes "step L ev w = Some w'" and "\<not> ctx (grp w)" and "ctx (grp w')"
  shows "ev = CancelParent \<or> (ev = WaitReturns \<and> wg (grp w) = 0)
     \<or> (\<exists>i. ev = Step i \<and> i < length (units w) \<and> at (units w ! i) = AtCancel \<and> \<not> waitAll (grp w))"
proof (cases ev)
  case (Step i)
  with assms have r: "run_unit L i (units w ! i) w = Some w'" and i: "i < length (units w)"
    by (auto split: if_splits)
  from r assms(2,3) have "at (units w ! i) = AtCancel \<and> \<not> waitAll (grp w)"
    by (auto simp: run_unit_def set_unit_def call_fun_def deferred_def
      split: place.splits option.splits if_splits dest!: record_local_same)
  with Step i show ?thesis by simp
qed (use assms in \<open>auto simp: set_unit_def Wait_def split: if_splits option.splits\<close>)

text \<open>
  Claim C5. In a group built with \<^verbatim>\<open>waitAll = true\<close>, after any run \<open>evs\<close>: a step
  that fires the cancellation signal (the context was not done before it and is done
  after it) and is not the cancellation of the parent is the return of \<^verbatim>\<open>Wait\<close>; the
  counter of the wait group is zero at that moment, and every goroutine spawned by the
  \<^verbatim>\<open>Go\<close> calls of the run has ended after its deferred \<^verbatim>\<open>g.wg.Done()\<close>.
\<close>

theorem C5_run_to_completion:
  assumes "exec L evs (start (NewGroupWithContext p mc True rm me)) = Some w"
    and "step L ev w = Some w'"
    and "\<not> ctx (grp w)" and "ctx (grp w')"
    and "ev \<noteq> CancelParent"
  shows "ev = WaitReturns \<and> wg (grp w) = 0
    \<and> length (units w) = submitted evs
    \<and> list_all (\<lambda>u. at u = Returned) (units w)"
proof -
  from exec_fields [OF assms(1) inv_wg_start]
  have inv: "inv_wg w" and wa: "waitAll (grp w)" and n: "length (units w) = submitted evs"
    by (simp_all add: start_fields)
  from step_fires [OF assms(2,3,4)] assms(5) wa
  have ev: "ev = WaitReturns" and z: "wg (grp w) = 0"
    by auto
  from inv z have "pending (units w) = 0"
    by (simp add: inv_wg_def)
  then have "list_all (\<lambda>u. at u = Returned) (units w)"
    by (rule pending_0)
  with ev z n show ?thesis by simp
qed

lemma Retry_no_budget:
  "\<not> 0 < sint (MaxRetries ro) \<Longrightarrow>
    Retry L operation (backoffOpt L ro) s = (fst (operation s), snd (operation s), Reset L (backoffOpt L ro))"
  by (simp add: Retry_def Retry_loop_stop cc_of_Reset cc_of_backoffOpt)

lemma call_fun_no_retry:
  "call_fun L (g\<lparr>retryMode := Some no_retry\<rparr>) u = 
    Some (g\<lparr>retryMode := Some (no_retry\<lparr>wrapped := True\<rparr>)\<rparr>,
          u\<lparr>at := AfterFun, err_local := body u (calls u), calls := Suc (calls u)\<rparr>)"
  by (simp add: call_fun_def Retry_no_budget no_retry_def invoke_def)

lemmas run_simps = start_def NewGroupWithContext_def run_unit_def set_unit_def call_fun_def
  Retry_no_budget invoke_def record_local_def record_err_def chan_send_def deferred_def
  errOnce_Do_cancel_def cancel_def Wait_def no_retry_def fails_def succeeds_def

lemma run_two_failing:
  "map_option (\<lambda>w. (waits w, map at (units w), map calls (units w), map err_local (units w)))
     (exec L [CallGo (fails 1), CallGo (fails 2), Step 0, Step 0, Step 0, Step 0, Step 0,
              Step 1, Step 1, Step 1, Step 1, Step 1, CallWait, WaitReturns]
        (start (NewGroupWithContext False 0 True (Some no_retry) 3)))
   = Some ([Some []], [Returned, Returned], [1, 1], [Some (Failure 1), Some (Failure 2)])"
  by (simp add: run_simps)

lemma run_leak:
  "map_option (\<lambda>w. (wg (grp w), map at (units w), caller w, step L WaitReturns w = None))
     (exec L [CallGo (fails 1), CallGo (fails 2), Acquired 0, Step 0, Step 0, Step 0,
              AcquireCancelled 1, Step 1, Step 0, CallWait]
        (start (NewGroupWithContext False 1 False (Some no_retry) 3)))
   = Some (1, [Returned, ReturnedEarly], InWait, True)"
  by (simp add: run_simps)

lemma exec_append:
  "exec L (xs @ ys) w = (case exec L xs w of None \<Rightarrow> None | Some w1 \<Rightarrow> exec L ys w1)"
  by (induction xs arbitrary: w) (simp_all split: option.splits)

lemma step_keeps_early:
  assumes "step L ev w = Some w'" and "i < length (units w)" and "at (units w ! i) = ReturnedEarly"
  shows "i < length (units w') \<and> at (units w' ! i) = ReturnedEarly"
proof (cases ev)
  case (Step j)
  with assms have r: "run_unit L j (units w ! j) w = Some w'" and j: "j < length (units w)"
    by (auto split: if_splits)
  from r assms(3) have "j \<noteq> i"
    by (auto simp: run_unit_def)
  with r assms(2,3) show ?thesis
    by (auto simp: run_unit_def set_unit_def split: place.splits option.splits if_splits)
qed (use assms in \<open>auto simp: set_unit_def nth_append nth_list_update Wait_def
      split: if_splits option.splits\<close>)

lemma pending_early: "i < length us \<Longrightarrow> at (us ! i) = ReturnedEarly \<Longrightarrow> 0 < pending us"
  unfolding pending_def by (induction us arbitrary: i) (auto simp: nth_Cons split: nat.splits)

lemma step_blocked_caller:
  assumes "step L ev w = Some w'" and "inv_wg w"
    and "i < length (units w)" and "at (units w ! i) = ReturnedEarly"
    and "caller w = InWait"
  shows "caller w' = InWait \<and> waits w' = waits w"
proof (cases ev)
  case (Step j)
  with assms have r: "run_unit L j (units w ! j) w = Some w'" and j: "j < length (units w)"
    by (auto split: if_splits)
  from run_unit_fields(5,6) [OF r j refl] assms(2,5) show ?thesis
    by (simp add: inv_wg_def)
next
  case WaitReturns
  from pending_early [OF assms(3,4)] assms(2) have "wg (grp w) \<noteq> 0"
    by (simp add: inv_wg_def)
  with WaitReturns assms(1) show ?thesis
    by (simp add: Wait_def split: if_splits)
qed (use assms in \<open>auto simp: set_unit_def split: if_splits option.splits\<close>)

lemma early_return_blocks_Wait:
  assumes "exec L evs w = Some w'" and "inv_wg w"
    and "i < length (units w)" and "at (units w ! i) = ReturnedEarly"
    and "caller w = InWait"
  shows "caller w' = InWait \<and> waits w' = waits w \<and> wg (grp w') \<noteq> 0"
  using assms
proof (induction evs arbitrary: w)
  case Nil
  from pending_early [OF Nil.prems(3,4)] Nil.prems show ?case
    by (simp add: inv_wg_def)
next
  case (Cons ev evs)
  from Cons.prems(1) obtain w1 where s: "step L ev w = Some w1" and e: "exec L evs w1 = Some w'"
    by (auto split: option.splits)
  from step_keeps_early [OF s Cons.prems(3,4)] step_blocked_caller [OF s Cons.prems(2-5)]
    step_fields(1) [OF s Cons.prems(2)] Cons.IH [OF e]
  show ?case by simp
qed

text \<open>
  Claim C2 does not hold of the code. One permit, fail-fast mode, two tasks: the first
  goroutine takes the permit, its task fails and it cancels the context; the second
  goroutine's \<^verbatim>\<open>Acquire\<close> is refused and it leaves by the \<^verbatim>\<open>return\<close> of line 129, before
  the deferred \<^verbatim>\<open>g.wg.Done()\<close> is registered. The counter stays at 1 with both
  goroutines ended, and whatever happens afterwards (\<open>evs\<close>), \<^verbatim>\<open>Wait\<close> never returns.
\<close>

theorem C2_early_return_skips_Done:
  "map_option (\<lambda>w. (wg (grp w), map at (units w), caller w, waits w))
       (exec L leak_run (start (NewGroupWithContext False 1 False (Some no_retry) 3)))
     = Some (1, [Returned, ReturnedEarly], InWait, [])
   \<and> (case exec L (leak_run @ evs) (start (NewGroupWithContext False 1 False (Some no_retry) 3)) of
         None \<Rightarrow> True
       | Some w' \<Rightarrow> caller w' = InWait \<and> waits w' = [] \<and> wg (grp w') \<noteq> 0)"
proof -
  let ?s = "start (NewGroupWithContext False 1 False (Some no_retry) 3)"
  have run: "map_option (\<lambda>w. (wg (grp w), map at (units w), caller w, waits w)) (exec L leak_run ?s)
     = Some (1, [Returned, ReturnedEarly], InWait, [])"
    by (simp add: leak_run_def run_simps)
  then obtain w where w: "exec L leak_run ?s = Some w"
    and f: "map at (units w) = [Returned, ReturnedEarly]" "caller w = InWait" "waits w = []"
    by auto
  from f(1) have len: "1 < length (units w)" and early: "at (units w ! 1) = ReturnedEarly"
    by (auto simp: map_eq_Cons_conv)
  have inv: "inv_wg w"
    using exec_fields [OF w inv_wg_start] by simp
  have "caller w' = InWait \<and> waits w' = [] \<and> wg (grp w') \<noteq> 0" if "exec L evs w = Some w'" for w'
    using early_return_blocks_Wait [OF that inv len early f(2)] f(3) by simp
  with w run show ?thesis
    by (simp add: exec_append split: option.splits)
qed

text \<open>
  Claim C1 does not hold of the code. Two tasks that fail, no semaphore, capacity 3 and
  capacity 1: both goroutines run to their end with their failure in hand, and the
  channel \<^verbatim>\<open>Wait\<close> returns is empty in both groups (the claim gives lengths 2 and 1):
  the guard \<^verbatim>\<open>len(g.err.errs)-cap(g.err.errs) > 0\<close> is never true.
\<close>

theorem C1_nothing_recorded:
  "map_option (\<lambda>w. (waits w, map at (units w), map err_local (units w)))
     (exec L [CallGo (fails 1), CallGo (fails 2), Step 0, Step 0, Step 0, Step 0, Step 0,
              Step 1, Step 1, Step 1, Step 1, Step 1, CallWait, WaitReturns]
        (start (NewGroupWithContext False 0 True (Some no_retry) 3)))
   = Some ([Some []], [Returned, Returned], [Some (Failure 1), Some (Failure 2)])
  \<and> map_option (\<lambda>w. (waits w, map at (units w), map err_local (units w)))
     (exec L [CallGo (fails 1), CallGo (fails 2), Step 0, Step 0, Step 0, Step 0, Step 0,
              Step 1, Step 1, Step 1, Step 1, Step 1, CallWait, WaitReturns]
        (start (NewGroupWithContext False 0 True (Some no_retry) 1)))
   = Some ([Some []], [Returned, Returned], [Some (Failure 1), Some (Failure 2)])"
  by (simp add: run_simps)

text \<open>
  Claim C3 does not hold of the code. Fail-fast mode, one task that succeeds: the task
  has run once and returned \<^verbatim>\<open>nil\<close>, the context is not yet done, \<^verbatim>\<open>Wait\<close> has not been
  called; the goroutine's next statement (\<^verbatim>\<open>if !g.waitAll\<close>, line 149, outside the
  \<^verbatim>\<open>if err != nil\<close>) cancels the context.
\<close>

theorem C3_success_fires_cancel:
  "map_option (\<lambda>w. (ctx (grp w), map at (units w), map calls (units w), map err_local (units w),
        caller w, waits w))
     (exec L [CallGo succeeds, Step 0, Step 0, Step 0]
        (start (NewGroupWithContext False 0 False (Some no_retry) 3)))
   = Some (False, [AtCancel], [1], [None], Idle, [])
  \<and> map_option (\<lambda>w. (ctx (grp w), map at (units w), map calls (units w), map err_local (units w),
        caller w, waits w))
     (exec L [CallGo succeeds, Step 0, Step 0, Step 0, Step 0]
        (start (NewGroupWithContext False 0 False (Some no_retry) 3)))
   = Some (True, [AtDefer], [1], [None], Idle, [])"
  by (simp add: run_simps)

text \<open>
  Claim C4 does not hold of the code. A group built with \<^verbatim>\<open>retryMode = nil\<close> and one
  task: the goroutine's call \<^verbatim>\<open>fun()\<close> panics, the task's body has not been invoked,
  and the program has ended (no event can follow).
\<close>

theorem C4_nil_retry_panics:
  "map_option (\<lambda>w. (panicked w, map at (units w), map calls (units w)))
     (exec L [CallGo succeeds, Step 0, Step 0]
        (start (NewGroupWithContext False 0 True None 3)))
   = Some (True, [AtFun], [0])
  \<and> exec L ([CallGo succeeds, Step 0, Step 0] @ ev # evs)
        (start (NewGroupWithContext False 0 True None 3)) = None"
proof -
  have dead: "panicked w \<Longrightarrow> step L ev w = None" for w
    by (cases ev) simp_all
  have run: "map_option (\<lambda>w. (panicked w, map at (units w), map calls (units w)))
     (exec L [CallGo succeeds, Step 0, Step 0]
        (start (NewGroupWithContext False 0 True None 3)))
   = Some (True, [AtFun], [0])"
    by (simp add: run_simps)
  then obtain w where w: "exec L [CallGo succeeds, Step 0, Step 0]
        (start (NewGroupWithContext False 0 True None 3)) = Some w" and p: "panicked w"
    by auto
  have "exec L (ev # evs) w = None"
    by (simp add: dead [OF p])
  then have "exec L ([CallGo succeeds, Step 0, Step 0] @ ev # evs)
        (start (NewGroupWithContext False 0 True None 3)) = None"
    by (simp only: exec_append w option.case)
  with run show ?thesis by (simp only: simp_thms)
qed

text \<open>
  C5 at a run with one failing task: before \<^verbatim>\<open>Wait\<close> returns the context is not done,
  the counter is zero and the one goroutine has ended; the return of \<^verbatim>\<open>Wait\<close> cancels it.
\<close>

theorem C5_run_to_completion_witness:
  "map_option (\<lambda>w. (ctx (grp w), wg (grp w), length (units w), list_all (\<lambda>u. at u = Returned) (units w)))
      (exec doubling_lib one_failing_run (start (NewGroupWithContext False 0 True (Some no_retry) 3)))
     = Some (False, 0, 1, True)
   \<and> map_option (\<lambda>w. ctx (grp w))
      (exec doubling_lib (one_failing_run @ [WaitReturns])
         (start (NewGroupWithContext False 0 True (Some no_retry) 3)))
     = Some True"
proof -
  let ?s = "start (NewGroupWithContext False 0 True (Some no_retry) 3)"
  have run: "map_option (\<lambda>w. (ctx (grp w), wg (grp w), caller w, panicked w))
      (exec doubling_lib one_failing_run ?s) = Some (False, 0, InWait, False)"
    by (simp add: one_failing_run_def run_simps)
  then obtain w where w: "exec doubling_lib one_failing_run ?s = Some w"
    and f: "\<not> ctx (grp w)" "wg (grp w) = 0" "caller w = InWait" "\<not> panicked w"
    by auto
  let ?w' = "w\<lparr>grp := cancel (grp w), caller := Idle, waits := map_option errs (err (grp w)) # waits w\<rparr>"
  have st: "step doubling_lib WaitReturns w = Some ?w'"
    using f by (simp add: Wait_def)
  have fired: "ctx (grp ?w')"
    by (simp add: cancel_def)
  have n: "submitted one_failing_run = 1"
    by (simp add: submitted_def one_failing_run_def)
  from C5_run_to_completion [OF w st f(1) fired] n
  have "length (units w) = 1" "list_all (\<lambda>u. at u = Returned) (units w)"
    by simp_all
  with w st f fired show ?thesis
    by (simp add: exec_append)
qed

lemma record_local_roomy: "roomy (err g) \<Longrightarrow> record_local u g = Some g"
  by (auto simp: roomy_def record_local_def record_err_def split: option.splits)

lemma list_all_snoc: "list_all P (xs @ [x]) = (list_all P xs \<and> P x)"
  by (induction xs) auto

lemma serve_quiet:
  assumes "quiet sem w"
  shows "\<exists>w'. exec L (serve sem (length (units w)) t) w = Some w' \<and> quiet sem w'
      \<and> length (units w') = Suc (length (units w)) \<and> err (grp w') = err (grp w)"
proof -
  from assms obtain ro where ro: "retryMode (grp w) = Some ro"
    by (auto simp: quiet_def)
  show ?thesis
  proof (cases "sema (grp w)")
    case None
    with assms ro show ?thesis
      by (simp add: quiet_def run_unit_def set_unit_def call_fun_def record_local_roomy
          deferred_def errOnce_Do_cancel_def cancel_def list_all_snoc)
  next
    case (Some sm)
    with assms ro show ?thesis
      by (simp add: quiet_def run_unit_def set_unit_def call_fun_def record_local_roomy
          deferred_def errOnce_Do_cancel_def cancel_def list_all_snoc)
  qed
qed

lemma serve_all_quiet:
  assumes "quiet sem w"
  shows "\<exists>w'. exec L (serve_all sem (length (units w)) ts) w = Some w' \<and> quiet sem w'
      \<and> err (grp w') = err (grp w)"
  using assms
proof (induction ts arbitrary: w)
  case Nil
  then show ?case by simp
next
  case (Cons t ts)
  from serve_quiet [OF Cons.prems, of L t] obtain w1 where
    w1: "exec L (serve sem (length (units w)) t) w = Some w1" "quiet sem w1"
      "length (units w1) = Suc (length (units w))" "err (grp w1) = err (grp w)"
    by blast
  from Cons.IH [OF w1(2)] w1(3) obtain w' where
    w': "exec L (serve_all sem (Suc (length (units w))) ts) w1 = Some w'" "quiet sem w'"
      "err (grp w') = err (grp w1)"
    by auto
  from w1 w' show ?case
    by (simp only: serve_all.simps exec_append option.case) simp
qed

lemma pending_0_iff: "(pending us = 0) = list_all (\<lambda>u. at u = Returned) us"
  by (induction us) (simp_all add: pending_def)

lemma with_errs_fields:
  "err (with_errs xs (NewGroupWithContext p mc wa rm me))
     = (if 0 < me then Some \<lparr>errs = xs, cap_errs = nat me\<rparr> else None)"
  "wg (with_errs xs (NewGroupWithContext p mc wa rm me)) = 0"
  "retryMode (with_errs xs (NewGroupWithContext p mc wa rm me)) = rm"
  "sema (with_errs xs (NewGroupWithContext p mc wa rm me))
     = (if 0 < sint mc then Some \<lparr>sem_size = sint mc, sem_cur = 0\<rparr> else None)"
  by (simp_all add: with_errs_def NewGroupWithContext_def)

lemma inv_wg_start_with_errs: "inv_wg (start (with_errs xs (NewGroupWithContext p mc wa rm me)))"
  by (simp add: inv_wg_def start_def with_errs_fields pending_def)

lemma Wait_step_reads_collector:
  assumes "exec L evs (start (with_errs xs (NewGroupWithContext p mc wa rm maxErrs))) = Some w"
  shows "err (grp w) = (if 0 < maxErrs then Some \<lparr>errs = xs, cap_errs = nat maxErrs\<rparr> else None)
    \<and> step L WaitReturns w =
      (if \<not> panicked w \<and> caller w = InWait \<and> list_all (\<lambda>u. at u = Returned) (units w)
       then Some (w\<lparr>grp := cancel (grp w), caller := Idle,
                    waits := (if 0 < maxErrs then Some xs else None) # waits w\<rparr>)
       else None)"
proof -
  from exec_fields [OF assms inv_wg_start_with_errs]
  have inv: "inv_wg w"
    and e: "err (grp w) = (if 0 < maxErrs then Some \<lparr>errs = xs, cap_errs = nat maxErrs\<rparr> else None)"
    by (simp_all add: start_def with_errs_fields)
  from inv have z: "(wg (grp w) = 0) = list_all (\<lambda>u. at u = Returned) (units w)"
    by (simp add: inv_wg_def pending_0_iff [symmetric])
  show ?thesis
    using e z by (simp add: Wait_def)
qed

lemma Wait_returns_after_serving:
  assumes "rm = Some ro" and "maxErrs \<le> 0 \<or> int (length xs) \<le> maxErrs"
  shows "map_option waits
      (exec L (serve_all (0 < sint mc) 0 ts @ [CallWait, WaitReturns])
         (start (with_errs xs (NewGroupWithContext p mc wa rm maxErrs))))
     = Some [if 0 < maxErrs then Some xs else None]"
proof -
  let ?s = "start (with_errs xs (NewGroupWithContext p mc wa rm maxErrs))"
  have q: "quiet (0 < sint mc) ?s"
    using assms by (auto simp: quiet_def start_def with_errs_fields roomy_def)
  have n: "length (units ?s) = 0"
    by (simp add: start_def)
  from serve_all_quiet [OF q, of L ts] n obtain w where
    w: "exec L (serve_all (0 < sint mc) 0 ts) ?s = Some w" "quiet (0 < sint mc) w"
      "err (grp w) = err (grp ?s)"
    by auto
  have e: "err (grp w) = (if 0 < maxErrs then Some \<lparr>errs = xs, cap_errs = nat maxErrs\<rparr> else None)"
    using w(3) by (simp add: start_def with_errs_fields)
  from w(2) e have "map_option waits (exec L [CallWait, WaitReturns] w)
      = Some [if 0 < maxErrs then Some xs else None]"
    by (simp add: quiet_def Wait_def)
  then show ?thesis
    by (simp only: exec_append w(1) option.case)
qed

text \<open>
  Claim C8. In every state \<open>w\<close> that a run reaches from a group built with \<^verbatim>\<open>maxErrs\<close>,
  whatever its error channel holds (\<open>xs\<close>; the constructor's channel is \<open>xs = []\<close>):
  \<^verbatim>\<open>Wait\<close> returns exactly when the caller is inside it, the program has not panicked
  and every spawned goroutine has ended after its deferred \<^verbatim>\<open>g.wg.Done()\<close>; it then
  returns \<^verbatim>\<open>nil\<close> if \<^verbatim>\<open>maxErrs \<le> 0\<close> and the channel with its contents otherwise, and
  \<^verbatim>\<open>nil\<close> is returned in no other case. And \<^verbatim>\<open>Wait\<close> does return: with a retry option,
  for every list of tasks, the run that serves them one after the other and then calls
  \<^verbatim>\<open>Wait\<close> ends with that result (with a semaphore, in a group whose context is not
  cancelled before \<^verbatim>\<open>Wait\<close>: run-to-completion mode, parent not cancelled, so that no
  \<^verbatim>\<open>Acquire\<close> of the run can be refused).
\<close>

theorem C8_wait_result:
  "with_errs [] (NewGroupWithContext p mc wa rm maxErrs) = NewGroupWithContext p mc wa rm maxErrs
   \<and> (exec L evs (start (with_errs xs (NewGroupWithContext p mc wa rm maxErrs))) = Some w \<longrightarrow>
        err (grp w) = (if 0 < maxErrs then Some \<lparr>errs = xs, cap_errs = nat maxErrs\<rparr> else None)
      \<and> step L WaitReturns w =
          (if \<not> panicked w \<and> caller w = InWait \<and> list_all (\<lambda>u. at u = Returned) (units w)
           then Some (w\<lparr>grp := cancel (grp w), caller := Idle,
                        waits := (if 0 < maxErrs then Some xs else None) # waits w\<rparr>)
           else None))
   \<and> ((if 0 < maxErrs then Some xs else None) = None) = (maxErrs \<le> 0)
   \<and> (rm \<noteq> None \<and> (maxErrs \<le> 0 \<or> int (length xs) \<le> maxErrs) \<and> (0 < sint mc \<longrightarrow> wa \<and> \<not> p) \<longrightarrow>
        map_option waits
          (exec L (serve_all (0 < sint mc) 0 ts @ [CallWait, WaitReturns])
             (start (with_errs xs (NewGroupWithContext p mc wa rm maxErrs))))
        = Some [if 0 < maxErrs then Some xs else None])"
proof -
  have A: "with_errs [] (NewGroupWithContext p mc wa rm maxErrs) = NewGroupWithContext p mc wa rm maxErrs"
    by (simp add: with_errs_def NewGroupWithContext_def)
  have B: "exec L evs (start (with_errs xs (NewGroupWithContext p mc wa rm maxErrs))) = Some w \<longrightarrow>
        err (grp w) = (if 0 < maxErrs then Some \<lparr>errs = xs, cap_errs = nat maxErrs\<rparr> else None)
      \<and> step L WaitReturns w =
          (if \<not> panicked w \<and> caller w = InWait \<and> list_all (\<lambda>u. at u = Returned) (units w)
           then Some (w\<lparr>grp := cancel (grp w), caller := Idle,
                        waits := (if 0 < maxErrs then Some xs else None) # waits w\<rparr>)
           else None)"
    using Wait_step_reads_collector by blast
  have C: "((if 0 < maxErrs then Some xs else None) = None) = (maxErrs \<le> 0)"
    by auto
  have D: "rm \<noteq> None \<and> (maxErrs \<le> 0 \<or> int (length xs) \<le> maxErrs) \<and> (0 < sint mc \<longrightarrow> wa \<and> \<not> p) \<longrightarrow>
        map_option waits
          (exec L (serve_all (0 < sint mc) 0 ts @ [CallWait, WaitReturns])
             (start (with_errs xs (NewGroupWithContext p mc wa rm maxErrs))))
        = Some [if 0 < maxErrs then Some xs else None]"
    using Wait_returns_after_serving by blast
  from A B C D show ?thesis by blast
qed

text \<open>
  C8 at three runs: a failing task in a group whose channel holds one failure (\<^verbatim>\<open>Wait\<close>
  returns that failure); two tasks served under a semaphore of one permit, capacity 3
  (an empty channel); two tasks without semaphore, capacity 0 (\<^verbatim>\<open>nil\<close>).
\<close>

theorem C8_wait_result_witness:
  "map_option waits
      (exec doubling_lib (one_failing_run @ [WaitReturns])
         (start (with_errs [Failure 7] (NewGroupWithContext False 0 True (Some no_retry) 3))))
     = Some [Some [Failure 7]]
   \<and> map_option waits
      (exec doubling_lib (serve_all True 0 [fails 1, succeeds] @ [CallWait, WaitReturns])
         (start (NewGroupWithContext False 1 True (Some no_retry) 3)))
     = Some [Some []]
   \<and> map_option waits
      (exec doubling_lib (serve_all False 0 [fails 1, succeeds] @ [CallWait, WaitReturns])
         (start (NewGroupWithContext False 0 False (Some no_retry) 0)))
     = Some [None]"
proof -
  let ?g = "NewGroupWithContext False 0 True (Some no_retry) 3"
  let ?s = "start (with_errs [Failure 7] ?g)"
  have "map_option (\<lambda>w. (caller w, panicked w, waits w, map at (units w)))
      (exec doubling_lib one_failing_run ?s) = Some (InWait, False, [], [Returned])"
    by (simp add: one_failing_run_def with_errs_def run_simps)
  then obtain w where w: "exec doubling_lib one_failing_run ?s = Some w"
    and f: "caller w = InWait" "\<not> panicked w" "waits w = []" "map at (units w) = [Returned]"
    by auto
  from f(4) have r: "list_all (\<lambda>u. at u = Returned) (units w)"
    by (auto simp: map_eq_Cons_conv)
  from C8_wait_result [of False 0 True "Some no_retry" 3 doubling_lib one_failing_run "[Failure 7]" w]
    w f r
  have "step doubling_lib WaitReturns w
      = Some (w\<lparr>grp := cancel (grp w), caller := Idle, waits := [Some [Failure 7]]\<rparr>)"
    by simp
  with w have one: "map_option waits (exec doubling_lib (one_failing_run @ [WaitReturns]) ?s)
      = Some [Some [Failure 7]]"
    by (simp add: exec_append)
  have z: "with_errs [] (NewGroupWithContext False 1 True (Some no_retry) 3)
      = NewGroupWithContext False 1 True (Some no_retry) 3"
    "with_errs [] (NewGroupWithContext False 0 False (Some no_retry) 0)
      = NewGroupWithContext False 0 False (Some no_retry) 0"
    by (simp_all add: with_errs_def NewGroupWithContext_def)
  from C8_wait_result [of False 1 True "Some no_retry" 3 doubling_lib "[]" "[]" _ "[fails 1, succeeds]"] z
  have two: "map_option waits
      (exec doubling_lib (serve_all True 0 [fails 1, succeeds] @ [CallWait, WaitReturns])
         (start (NewGroupWithContext False 1 True (Some no_retry) 3))) = Some [Some []]"
    by simp
  from C8_wait_result [of False 0 False "Some no_retry" 0 doubling_lib "[]" "[]" _ "[fails 1, succeeds]"] z
  have three: "map_option waits
      (exec doubling_lib (serve_all False 0 [fails 1, succeeds] @ [CallWait, WaitReturns])
         (start (NewGroupWithContext False 0 False (Some no_retry) 0))) = Some [None]"
    by simp
  from one two three show ?thesis
    by (simp only: simp_thms)
qed

end
